theory Spec2Isabelle
  imports Main "HOL-Library.Sublist" "HOL-Library.Char_ord" "HOL-Library.List_Lexorder"
    "HOL-Library.Product_Lexorder"
begin

section \<open>The Twinset site indexer (scripts/twinset\_site\_indexer.py)\<close>

text \<open>
  Python strings are modelled as \<^typ>\<open>string\<close>, a list of 8-bit characters: each
  character stands for one code point below 256. SQLite compares TEXT values with the
  BINARY collation, which on such strings is the lexicographic order of
  \<^typ>\<open>char list\<close>. The current time \<open>now_iso()\<close> is an input of every
  operation that stores it.
\<close>

subsection \<open>The durable store (class IndexDb)\<close>

text \<open>
  One record per table of \<open>_init_schema\<close>; a nullable column is an option. A table
  is the list of its rows in insertion order. \<open>blocked\<close> is the INTEGER column the
  code fills with 0 or 1.
\<close>

record sitemap_row =
  sm_site :: string
  sm_url :: string
  sm_status :: string
  sm_discovered_from :: "string option"
  sm_item_count :: "int option"
  sm_attempts :: int
  sm_last_error :: "string option"
  sm_updated_at :: string

record queue_row =
  q_site :: string
  q_url :: string
  q_url_type :: string
  q_status :: string
  q_depth :: int
  q_discovered_from :: "string option"
  q_attempts :: int
  q_last_http_status :: "int option"
  q_blocked :: int
  q_last_error :: "string option"
  q_updated_at :: string

record product_row =
  p_site :: string
  p_url :: string
  p_sku :: "string option"
  p_title :: "string option"
  p_category_path :: "string option"
  p_payload_json :: "string option"
  p_updated_at :: string

record sku_row =
  si_site :: string
  si_sku :: string
  si_url :: string
  si_title :: "string option"
  si_category_path :: "string option"
  si_updated_at :: string

record index_db =
  sitemaps :: "sitemap_row list"
  url_queue :: "queue_row list"
  products :: "product_row list"
  sku_index :: "sku_row list"

definition empty_db :: index_db where
  "empty_db = \<lparr>sitemaps = [], url_queue = [], products = [], sku_index = []\<rparr>"



text \<open>
  \<open>ORDER BY ... LIMIT 1\<close> is a scan that keeps the best row seen so far and
  replaces it only by a strictly smaller one, so among equal rows the first of the table
  is returned (SQLite leaves the choice among equal rows open).
\<close>

fun first_min_by :: "('a \<Rightarrow> 'a \<Rightarrow> bool) \<Rightarrow> 'a \<Rightarrow> 'a list \<Rightarrow> 'a" where
  "first_min_by lt best [] = best"
| "first_min_by lt best (r # rs) = first_min_by lt (if lt r best then r else best) rs"

definition select_first :: "('a \<Rightarrow> 'a \<Rightarrow> bool) \<Rightarrow> 'a list \<Rightarrow> 'a option" where
  "select_first lt rows = (case rows of [] \<Rightarrow> None | r # rs \<Rightarrow> Some (first_min_by lt r rs))"



text \<open>\<open>INSERT INTO url_queue ... VALUES (?, ?, ?, 'pending', ?, ?, ?)
  ON CONFLICT(site, url) DO NOTHING\<close>\<close>

definition enqueue_url ::
  "string \<Rightarrow> index_db \<Rightarrow> string \<Rightarrow> string \<Rightarrow> string \<Rightarrow> int \<Rightarrow> string option \<Rightarrow> index_db" where
  "enqueue_url now db site url url_type depth discovered_from =
     (if list_ex (\<lambda>r. q_site r = site \<and> q_url r = url) (url_queue db) then db
      else db\<lparr>url_queue := url_queue db @
        [\<lparr>q_site = site, q_url = url, q_url_type = url_type, q_status = ''pending'',
          q_depth = depth, q_discovered_from = discovered_from, q_attempts = 0,
          q_last_http_status = None, q_blocked = 0, q_last_error = None,
          q_updated_at = now\<rparr>]\<rparr>)"

text \<open>\<open>WHERE site = ? AND status = 'pending' AND url_type IN (...) AND depth <= ?\<close>\<close>

definition pending_candidate :: "string \<Rightarrow> string list \<Rightarrow> int \<Rightarrow> queue_row \<Rightarrow> bool" where
  "pending_candidate site allowed_types max_depth r \<longleftrightarrow>
     q_site r = site \<and> q_status r = ''pending'' \<and> q_url_type r \<in> set allowed_types \<and>
     q_depth r \<le> max_depth"

text \<open>\<open>ORDER BY depth ASC, attempts ASC, updated_at ASC\<close>\<close>

definition queue_before :: "queue_row \<Rightarrow> queue_row \<Rightarrow> bool" where
  "queue_before a b \<longleftrightarrow>
     q_depth a < q_depth b \<or>
     (q_depth a = q_depth b \<and>
       (q_attempts a < q_attempts b \<or>
        (q_attempts a = q_attempts b \<and> q_updated_at a < q_updated_at b)))"

definition next_pending_url :: "index_db \<Rightarrow> string \<Rightarrow> string list \<Rightarrow> int \<Rightarrow> queue_row option" where
  "next_pending_url db site allowed_types max_depth =
     select_first queue_before
       (filter (pending_candidate site allowed_types max_depth) (url_queue db))"

text \<open>\<open>UPDATE url_queue SET status = ?, attempts = attempts + 1,
  last_http_status = COALESCE(?, last_http_status), blocked = ?, last_error = ?,
  updated_at = ? WHERE site = ? AND url = ?\<close>\<close>

definition set_url_status ::
  "string \<Rightarrow> index_db \<Rightarrow> string \<Rightarrow> string \<Rightarrow> string \<Rightarrow> int option \<Rightarrow> bool \<Rightarrow> string option \<Rightarrow> index_db" where
  "set_url_status now db site url status http_status blocked error =
     db\<lparr>url_queue := map (\<lambda>r.
        if q_site r = site \<and> q_url r = url
        then r\<lparr>q_status := status,
               q_attempts := q_attempts r + 1,
               q_last_http_status :=
                 (case http_status of Some c \<Rightarrow> Some c | None \<Rightarrow> q_last_http_status r),
               q_blocked := (if blocked then 1 else 0),
               q_last_error := error,
               q_updated_at := now\<rparr>
        else r) (url_queue db)\<rparr>"

text \<open>
  \<open>upsert_product\<close>: the products row is inserted or, on a conflict of (site, url),
  overwritten; then \<open>if sku:\<close> guards the write to sku\_index, which inserts or, on a
  conflict of (site, sku, url), refreshes title, category and time. The two statements
  read the clock separately. \<open>payload_json\<close> is the text \<open>json.dumps\<close> returned.
\<close>

definition upsert_products_row ::
  "string \<Rightarrow> product_row list \<Rightarrow> string \<Rightarrow> string \<Rightarrow> string option \<Rightarrow> string option \<Rightarrow>
   string option \<Rightarrow> string \<Rightarrow> product_row list" where
  "upsert_products_row now rows site url sku title category_path payload_json =
     (if list_ex (\<lambda>r. p_site r = site \<and> p_url r = url) rows
      then map (\<lambda>r. if p_site r = site \<and> p_url r = url
                     then r\<lparr>p_sku := sku, p_title := title, p_category_path := category_path,
                            p_payload_json := Some payload_json, p_updated_at := now\<rparr>
                     else r) rows
      else rows @ [\<lparr>p_site = site, p_url = url, p_sku = sku, p_title = title,
                     p_category_path = category_path, p_payload_json = Some payload_json,
                     p_updated_at = now\<rparr>])"

definition upsert_sku_row ::
  "string \<Rightarrow> sku_row list \<Rightarrow> string \<Rightarrow> string \<Rightarrow> string \<Rightarrow> string option \<Rightarrow> string option \<Rightarrow>
   sku_row list" where
  "upsert_sku_row now rows site sku url title category_path =
     (if list_ex (\<lambda>r. si_site r = site \<and> si_sku r = sku \<and> si_url r = url) rows
      then map (\<lambda>r. if si_site r = site \<and> si_sku r = sku \<and> si_url r = url
                     then r\<lparr>si_title := title, si_category_path := category_path,
                            si_updated_at := now\<rparr>
                     else r) rows
      else rows @ [\<lparr>si_site = site, si_sku = sku, si_url = url, si_title = title,
                     si_category_path = category_path, si_updated_at = now\<rparr>])"

text \<open>Python's truth value of an \<open>Optional[str]\<close>: neither \<open>None\<close> nor empty.\<close>

fun truthy :: "string option \<Rightarrow> bool" where
  "truthy None = False"
| "truthy (Some s) = (s \<noteq> [])"

definition upsert_product ::
  "string \<Rightarrow> string \<Rightarrow> index_db \<Rightarrow> string \<Rightarrow> string \<Rightarrow> string option \<Rightarrow> string option \<Rightarrow>
   string option \<Rightarrow> string \<Rightarrow> index_db" where
  "upsert_product now1 now2 db site url sku title category_path payload_json =
     (let db1 = db\<lparr>products :=
                  upsert_products_row now1 (products db) site url sku title category_path
                    payload_json\<rparr>
      in case sku of
           None \<Rightarrow> db1
         | Some k \<Rightarrow>
             if truthy sku
             then db1\<lparr>sku_index :=
                    upsert_sku_row now2 (sku_index db1) site k url title category_path\<rparr>
             else db1)"

text \<open>\<open>UPDATE url_queue SET status = 'pending', last_error = NULL, blocked = 0,
  updated_at = ? WHERE site = ? AND status IN ('error', 'blocked')\<close>; the result is the
  new store and \<open>cur.rowcount\<close>.\<close>

definition reset_target :: "string \<Rightarrow> queue_row \<Rightarrow> bool" where
  "reset_target site r \<longleftrightarrow> q_site r = site \<and> (q_status r = ''error'' \<or> q_status r = ''blocked'')"

definition reset_errors :: "string \<Rightarrow> index_db \<Rightarrow> string \<Rightarrow> index_db \<times> int" where
  "reset_errors now db site =
     (db\<lparr>url_queue := map (\<lambda>r.
         if reset_target site r
         then r\<lparr>q_status := ''pending'', q_last_error := None, q_blocked := 0,
                q_updated_at := now\<rparr>
         else r) (url_queue db)\<rparr>,
      int (length (filter (reset_target site) (url_queue db))))"

text \<open>A store used to illustrate the queue operations.\<close>

definition example_queue :: index_db where
  "example_queue = empty_db\<lparr>url_queue :=
     [\<lparr>q_site = ''twinset.ru'', q_url = ''https://twinset.ru/catalog/'', q_url_type = ''category'',
       q_status = ''done'', q_depth = 0, q_discovered_from = Some ''seed'', q_attempts = 1,
       q_last_http_status = Some 200, q_blocked = 0, q_last_error = None,
       q_updated_at = ''2026-01-01T00:00:05+00:00''\<rparr>,
      \<lparr>q_site = ''twinset.ru'', q_url = ''https://twinset.ru/catalog/a/1/'', q_url_type = ''product'',
       q_status = ''error'', q_depth = 1, q_discovered_from = None, q_attempts = 1,
       q_last_http_status = Some 503, q_blocked = 0, q_last_error = Some ''HTTP Error 503'',
       q_updated_at = ''2026-01-01T00:00:07+00:00''\<rparr>,
      \<lparr>q_site = ''twinset.ru'', q_url = ''https://twinset.ru/catalog/a/2/'', q_url_type = ''product'',
       q_status = ''pending'', q_depth = 1, q_discovered_from = None, q_attempts = 0,
       q_last_http_status = None, q_blocked = 0, q_last_error = None,
       q_updated_at = ''2026-01-01T00:00:03+00:00''\<rparr>,
      \<lparr>q_site = ''twinset.ru'', q_url = ''https://twinset.ru/catalog/b/'', q_url_type = ''category'',
       q_status = ''pending'', q_depth = 0, q_discovered_from = None, q_attempts = 0,
       q_last_http_status = None, q_blocked = 0, q_last_error = None,
       q_updated_at = ''2026-01-01T00:00:04+00:00''\<rparr>,
      \<lparr>q_site = ''twinset.com'', q_url = ''https://www.twinset.com/row/x'', q_url_type = ''category'',
       q_status = ''blocked'', q_depth = 0, q_discovered_from = None, q_attempts = 2,
       q_last_http_status = Some 200, q_blocked = 1, q_last_error = Some ''captcha_or_block'',
       q_updated_at = ''2026-01-01T00:00:02+00:00''\<rparr>]\<rparr>"

text \<open>The sort key of \<open>ORDER BY depth ASC, attempts ASC, updated_at ASC\<close>.\<close>

definition queue_key :: "queue_row \<Rightarrow> int \<times> int \<times> string" where
  "queue_key r = (q_depth r, q_attempts r, q_updated_at r)"

subsection \<open>Strings\<close>

text \<open>
  \<open>str.lower()\<close> and \<open>str.upper()\<close> on code points below 256: the ASCII letters, and
  the Latin-1 letters U+00C0..U+00DE (without the multiplication sign U+00D7) and
  U+00E0..U+00FE (without the division sign U+00F7). The three code points whose upper
  case lies outside the range (U+00B5, U+00DF, U+00FF) are left as they are by
  \<open>upper_char\<close>; Python maps them out of the 8-bit range.
\<close>

definition lower_char :: "char \<Rightarrow> char" where
  "lower_char c =
     (let n = (of_char c :: nat)
      in if (65 \<le> n \<and> n \<le> 90) \<or> (192 \<le> n \<and> n \<le> 222 \<and> n \<noteq> 215)
         then char_of (n + 32) else c)"

definition upper_char :: "char \<Rightarrow> char" where
  "upper_char c =
     (let n = (of_char c :: nat)
      in if (97 \<le> n \<and> n \<le> 122) \<or> (224 \<le> n \<and> n \<le> 254 \<and> n \<noteq> 247)
         then char_of (n - 32) else c)"

definition py_lower :: "string \<Rightarrow> string" where
  "py_lower s = map lower_char s"

definition py_upper :: "string \<Rightarrow> string" where
  "py_upper s = map upper_char s"

text \<open>\<open>sub in s\<close> on strings: \<open>sub\<close> starts at some position of \<open>s\<close>.\<close>

fun py_in :: "string \<Rightarrow> string \<Rightarrow> bool" where
  "py_in sub [] = (sub = [])"
| "py_in sub (c # cs) = (prefix sub (c # cs) \<or> py_in sub cs)"

subsection \<open>Block pages (detect\_block\_page)\<close>

definition markers :: "string list" where
  "markers = [''attention required!'', ''cf-challenge'', ''verify you are a human'',
              ''captcha'', ''access denied'', ''temporarily unavailable'']"

definition detect_block_page :: "string \<Rightarrow> bool" where
  "detect_block_page page_html =
     (let lowered = py_lower page_html;
          score = length (filter (\<lambda>marker. py_in marker lowered) markers)
      in score \<ge> 2 \<or> py_in ''cf-challenge'' lowered)"

text \<open>
  The claim's words: a marker occurs case-insensitively in a page when some stretch of the
  page, put in lower case, is the marker.
\<close>

definition occurs_ci :: "string \<Rightarrow> string \<Rightarrow> bool" where
  "occurs_ci marker page \<longleftrightarrow> (\<exists>pre mid post. page = pre @ mid @ post \<and> py_lower mid = marker)"

subsection \<open>Whitespace and de-duplication (normalize\_space, dedupe\_keep\_order)\<close>

text \<open>
  The code points below 256 that \<open>\s\<close> matches and \<open>str.strip()\<close> removes: TAB, LF, VT, FF,
  CR, U+001C..U+001F, SPACE, U+0085 and U+00A0.
\<close>

definition is_space :: "char \<Rightarrow> bool" where
  "is_space c = ((of_char c :: nat) \<in> {9, 10, 11, 12, 13, 28, 29, 30, 31, 32, 133, 160})"

text \<open>
  \<open>re.sub(r"\s+", " ", value)\<close>: a scan that writes one space for each maximal run of
  whitespace; the flag says that the scan is inside a run.
\<close>

fun sub_spaces :: "bool \<Rightarrow> string \<Rightarrow> string" where
  "sub_spaces in_run [] = []"
| "sub_spaces in_run (c # cs) =
     (if is_space c then (if in_run then sub_spaces True cs else CHR '' '' # sub_spaces True cs)
      else c # sub_spaces False cs)"

definition py_strip :: "string \<Rightarrow> string" where
  "py_strip s = rev (dropWhile is_space (rev (dropWhile is_space s)))"

definition normalize_space :: "string \<Rightarrow> string" where
  "normalize_space v = py_strip (sub_spaces False v)"



subsection \<open>Matching articles (IndexDb.match\_articles)\<close>









subsection \<open>Regular expressions (module re)\<close>

text \<open>
  The patterns of the script use literals, character classes, concatenation, alternation
  and greedy repetition. \<open>Sym p\<close> is one character satisfying \<open>p\<close>; the flag
  \<open>re.IGNORECASE\<close>, which every pattern of the script carries, is part of the predicate.
  \<open>ms r s\<close> lists, in the order in which a backtracking matcher tries them, the rests of
  \<open>s\<close> after a match of \<open>r\<close> at its start. An iteration of \<open>Star\<close> that consumes nothing
  is not repeated.
\<close>

datatype regex =
    Sym "char \<Rightarrow> bool"
  | Eps
  | Seq regex regex
  | Alt regex regex
  | Star regex

fun ms :: "regex \<Rightarrow> string \<Rightarrow> string list" where
  "ms (Sym p) [] = []"
| "ms (Sym p) (c # cs) = (if p c then [cs] else [])"
| "ms Eps s = [s]"
| "ms (Seq a b) s = concat (map (ms b) (ms a s))"
| "ms (Alt a b) s = ms a s @ ms b s"
| "ms (Star a) s =
     concat (map (\<lambda>t. if length t < length s then ms (Star a) t else []) (ms a s)) @ [s]"

text \<open>What \<open>$\<close> accepts: the end of the string, or the newline that ends the string.\<close>

definition at_end :: "string \<Rightarrow> bool" where
  "at_end t \<longleftrightarrow> t = [] \<or> t = [CHR 0x0A]"

text \<open>\<open>re.match\<close> of a pattern \<open>^r$\<close> (or \<open>r$\<close>): is there a match object.\<close>

definition re_match_eol :: "regex \<Rightarrow> string \<Rightarrow> bool" where
  "re_match_eol r s = list_ex at_end (ms r s)"

text \<open>
  \<open>re.search\<close> of a pattern \<open>p(g)t$\<close> with one group: the leftmost start, and there the
  first way of matching in backtracking order; the result is the text of the group.
\<close>

definition group_here :: "regex \<Rightarrow> regex \<Rightarrow> regex \<Rightarrow> string \<Rightarrow> string option" where
  "group_here p g t s =
     (case concat (map (\<lambda>r. map (\<lambda>r'. take (length r - length r') r)
                               (filter (\<lambda>r'. re_match_eol t r') (ms g r)))
                       (ms p s)) of
        [] \<Rightarrow> None
      | x # _ \<Rightarrow> Some x)"

fun re_search_group :: "regex \<Rightarrow> regex \<Rightarrow> regex \<Rightarrow> string \<Rightarrow> string option" where
  "re_search_group p g t [] = group_here p g t []"
| "re_search_group p g t (c # cs) =
     (case group_here p g t (c # cs) of
        Some x \<Rightarrow> Some x
      | None \<Rightarrow> re_search_group p g t cs)"

text \<open>The pieces of the pattern syntax.\<close>

definition is_digit :: "char \<Rightarrow> bool" where
  "is_digit c \<longleftrightarrow> 48 \<le> (of_char c :: nat) \<and> (of_char c :: nat) \<le> 57"

definition is_letter :: "char \<Rightarrow> bool" where
  "is_letter c \<longleftrightarrow> (65 \<le> (of_char c :: nat) \<and> (of_char c :: nat) \<le> 90) \<or>
                    (97 \<le> (of_char c :: nat) \<and> (of_char c :: nat) \<le> 122)"

definition is_alnum :: "char \<Rightarrow> bool" where
  "is_alnum c \<longleftrightarrow> is_digit c \<or> is_letter c"

definition lit :: "char \<Rightarrow> regex" where
  "lit c = Sym (\<lambda>x. lower_char x = lower_char c)"

fun str_ci :: "string \<Rightarrow> regex" where
  "str_ci [] = Eps"
| "str_ci (c # cs) = Seq (lit c) (str_ci cs)"

definition dot :: regex where
  "dot = Sym (\<lambda>c. c \<noteq> CHR 0x0A)"

definition digit :: regex where
  "digit = Sym is_digit"

definition letter :: regex where
  "letter = Sym is_letter"

definition alnum :: regex where
  "alnum = Sym is_alnum"

definition plus :: "regex \<Rightarrow> regex" where
  "plus r = Seq r (Star r)"

definition opt :: "regex \<Rightarrow> regex" where
  "opt r = Alt r Eps"

fun times :: "nat \<Rightarrow> regex \<Rightarrow> regex" where
  "times 0 r = Eps"
| "times (Suc n) r = Seq r (times n r)"

fun at_most :: "nat \<Rightarrow> regex \<Rightarrow> regex" where
  "at_most 0 r = Eps"
| "at_most (Suc n) r = Alt (Seq r (at_most n r)) Eps"

definition between :: "nat \<Rightarrow> nat \<Rightarrow> regex \<Rightarrow> regex" where
  "between m n r = Seq (times m r) (at_most (n - m) r)"

subsection \<open>URLs (urllib.parse, as in CPython 3.11)\<close>

text \<open>
  \<open>urlparse\<close> raises \<open>ValueError\<close> for a network location with one bracket but not the
  other. For a host in brackets it asks the \<open>ipaddress\<close> module, which is not modelled:
  such a URL gets the result \<open>Bracketed_host\<close>, and nothing is said about it. The NFKC
  check of the network location never fails on code points below 256.
\<close>

datatype url_error = Invalid_IPv6_URL | Bracketed_host

record parse_result =
  scheme :: string
  netloc :: string
  path :: string
  params :: string
  query :: string
  fragment :: string

definition uses_netloc :: "string list" where
  "uses_netloc = [[], ''ftp'', ''http'', ''gopher'', ''nntp'', ''telnet'', ''imap'', ''wais'',
     ''file'', ''mms'', ''https'', ''shttp'', ''snews'', ''prospero'', ''rtsp'', ''rtsps'',
     ''rtspu'', ''rsync'', ''svn'', ''svn+ssh'', ''sftp'', ''nfs'', ''git'', ''git+ssh'',
     ''ws'', ''wss'']"

definition uses_params :: "string list" where
  "uses_params = [[], ''ftp'', ''hdl'', ''prospero'', ''http'', ''imap'', ''https'', ''shttp'',
     ''rtsp'', ''rtsps'', ''rtspu'', ''sip'', ''sips'', ''mms'', ''sftp'', ''tel'']"

definition is_scheme_char :: "char \<Rightarrow> bool" where
  "is_scheme_char c \<longleftrightarrow> is_letter c \<or> is_digit c \<or> c = CHR ''+'' \<or> c = CHR ''-'' \<or> c = CHR ''.''"

text \<open>\<open>url.lstrip(_WHATWG_C0_CONTROL_OR_SPACE)\<close>, then the removal of TAB, CR and LF.\<close>

definition clean_input :: "string \<Rightarrow> string" where
  "clean_input url =
     filter (\<lambda>c. c \<noteq> CHR 0x09 \<and> c \<noteq> CHR 0x0D \<and> c \<noteq> CHR 0x0A)
       (dropWhile (\<lambda>c. (of_char c :: nat) \<le> 32) url)"

text \<open>\<open>s.split(c, 1)\<close> for a \<open>c\<close> that occurs in \<open>s\<close>.\<close>

definition split_first :: "char \<Rightarrow> string \<Rightarrow> string \<times> string" where
  "split_first c s = (takeWhile (\<lambda>x. x \<noteq> c) s, drop 1 (dropWhile (\<lambda>x. x \<noteq> c) s))"

definition split_scheme :: "string \<Rightarrow> string \<times> string" where
  "split_scheme url =
     (let pre = takeWhile (\<lambda>c. c \<noteq> CHR '':'') url
      in if CHR '':'' \<in> set url \<and> (case pre of [] \<Rightarrow> False | c # _ \<Rightarrow> is_letter c) \<and>
            list_all is_scheme_char pre
         then (py_lower pre, drop (Suc (length pre)) url)
         else ([], url))"

definition is_netloc_delim :: "char \<Rightarrow> bool" where
  "is_netloc_delim c \<longleftrightarrow> c = CHR ''/'' \<or> c = CHR ''?'' \<or> c = CHR ''#''"

text \<open>\<open>_splitnetloc(url, 2)\<close>\<close>

definition splitnetloc :: "string \<Rightarrow> string \<times> string" where
  "splitnetloc url =
     (takeWhile (\<lambda>c. \<not> is_netloc_delim c) (drop 2 url),
      dropWhile (\<lambda>c. \<not> is_netloc_delim c) (drop 2 url))"

definition urlsplit :: "string \<Rightarrow> url_error + (string \<times> string \<times> string \<times> string \<times> string)" where
  "urlsplit url0 =
     (let (sch, url1) = split_scheme (clean_input url0);
          (loc, url2) = (if take 2 url1 = ''//'' then splitnetloc url1 else ([], url1));
          (url3, frag) = (if CHR ''#'' \<in> set url2 then split_first (CHR ''#'') url2 else (url2, []));
          (url4, qry) = (if CHR ''?'' \<in> set url3 then split_first (CHR ''?'') url3 else (url3, []))
      in if (CHR ''['' \<in> set loc \<and> CHR '']'' \<notin> set loc) \<or>
            (CHR '']'' \<in> set loc \<and> CHR ''['' \<notin> set loc)
         then Inl Invalid_IPv6_URL
         else if CHR ''['' \<in> set loc \<and> CHR '']'' \<in> set loc then Inl Bracketed_host
         else Inr (sch, loc, url4, qry, frag))"

text \<open>\<open>_splitparams\<close>: the parameters start at the first semicolon of the last path segment.\<close>

definition splitparams :: "string \<Rightarrow> string \<times> string" where
  "splitparams url =
     (if CHR ''/'' \<in> set url
      then (let k = length url - Suc (length (takeWhile (\<lambda>c. c \<noteq> CHR ''/'') (rev url)));
                seg = drop k url
            in if CHR '';'' \<in> set seg
               then (take k url @ takeWhile (\<lambda>c. c \<noteq> CHR '';'') seg,
                     drop 1 (dropWhile (\<lambda>c. c \<noteq> CHR '';'') seg))
               else (url, []))
      else split_first (CHR '';'') url)"

definition urlparse :: "string \<Rightarrow> url_error + parse_result" where
  "urlparse url =
     (case urlsplit url of
        Inl e \<Rightarrow> Inl e
      | Inr (sch, loc, u, q, f) \<Rightarrow>
          (let (u', prm) = (if sch \<in> set uses_params \<and> CHR '';'' \<in> set u then splitparams u
                            else (u, []))
           in Inr \<lparr>scheme = sch, netloc = loc, path = u', params = prm, query = q,
                   fragment = f\<rparr>))"

definition urlunsplit :: "string \<Rightarrow> string \<Rightarrow> string \<Rightarrow> string \<Rightarrow> string \<Rightarrow> string" where
  "urlunsplit sch loc url q f =
     (let url1 = (if loc \<noteq> [] \<or> (sch \<noteq> [] \<and> sch \<in> set uses_netloc) \<or> take 2 url = ''//''
                  then ''//'' @ loc @ (if url \<noteq> [] \<and> take 1 url \<noteq> ''/'' then ''/'' @ url else url)
                  else url);
          url2 = (if sch \<noteq> [] then sch @ '':'' @ url1 else url1);
          url3 = (if q \<noteq> [] then url2 @ ''?'' @ q else url2)
      in if f \<noteq> [] then url3 @ ''#'' @ f else url3)"

definition geturl :: "parse_result \<Rightarrow> string" where
  "geturl p =
     urlunsplit (scheme p) (netloc p)
       (if params p \<noteq> [] then path p @ '';'' @ params p else path p) (query p) (fragment p)"

subsection \<open>Normalisation and classification of URLs\<close>

definition strip_query_and_fragment :: "string \<Rightarrow> url_error + string" where
  "strip_query_and_fragment url =
     (case urlparse url of
        Inl e \<Rightarrow> Inl e
      | Inr parsed \<Rightarrow>
          (let normalized = geturl (parsed\<lparr>query := [], fragment := []\<rparr>)
           in if suffix ''/'' normalized \<and> suffix ''twinset.com'' (netloc parsed) \<and>
                 count_list normalized (CHR ''/'') > 3
              then Inr (butlast normalized)
              else Inr normalized))"

record site_config =
  key :: string
  base_url :: string
  sitemap_candidates :: "string list"
  seed_category_urls :: "string list"
  product_url_re :: regex
  category_url_re :: regex

text \<open>\<open>(?:row|[a-z]{2}(?:-[a-z]{2})?)\<close>\<close>

definition locale_re :: regex where
  "locale_re = Alt (str_ci ''row'')
                   (Seq (times 2 letter) (opt (Seq (lit (CHR ''-'')) (times 2 letter))))"

definition twinset_ru :: site_config where
  "twinset_ru =
     \<lparr>key = ''twinset.ru'',
      base_url = ''https://twinset.ru'',
      sitemap_candidates = [''https://twinset.ru/sitemap.xml'', ''https://twinset.ru/robots.txt''],
      seed_category_urls = [''https://twinset.ru/catalog/''],
      product_url_re =
        Seq (str_ci ''https://twinset.ru/catalog/'')
          (Seq (plus dot) (Seq (lit (CHR ''/'')) (Seq (plus digit) (opt (lit (CHR ''/'')))))),
      category_url_re =
        Seq (str_ci ''https://twinset.ru/catalog'')
          (Seq (opt (Seq (lit (CHR ''/'')) (Star dot))) (opt (lit (CHR ''/''))))\<rparr>"

definition twinset_com :: site_config where
  "twinset_com =
     \<lparr>key = ''twinset.com'',
      base_url = ''https://www.twinset.com'',
      sitemap_candidates = [''https://www.twinset.com/sitemap_index.xml'',
                            ''https://www.twinset.com/robots.txt''],
      seed_category_urls = [''https://www.twinset.com/row/''],
      product_url_re =
        Seq (str_ci ''https://www.twinset.com/'')
          (Seq locale_re (Seq (lit (CHR ''/'')) (Seq (plus dot) (str_ci ''.html'')))),
      category_url_re =
        Seq (str_ci ''https://www.twinset.com/'')
          (Seq locale_re (Seq (lit (CHR ''/''))
            (Alt Eps
            (Alt (Seq (str_ci ''women'') (Star dot))
            (Alt (Seq (str_ci ''man'') (Star dot))
            (Alt (Seq (str_ci ''child'') (Star dot))
            (Alt (Seq (str_ci ''sale'') (Star dot))
            (Alt (Seq (str_ci ''new'') (Star dot))
                 (Seq (str_ci ''collection'') (Star dot))))))))))\<rparr>"

text \<open>The stale paths of twinset.ru: \<open>^https://twinset\.ru/catalog/\d+/?$\<close>\<close>

definition stale_path_re :: regex where
  "stale_path_re =
     Seq (str_ci ''https://twinset.ru/catalog/'') (Seq (plus digit) (opt (lit (CHR ''/''))))"

text \<open>\<open>-([0-9]{3}[A-Z]{2,5}[0-9A-Z]{2,})(?:_[0-9A-Z]+)?\.html$\<close>\<close>

definition sku_group_re :: regex where
  "sku_group_re = Seq (times 3 digit) (Seq (between 2 5 letter) (Seq (times 2 alnum) (Star alnum)))"

definition sku_tail_re :: regex where
  "sku_tail_re = Seq (opt (Seq (lit (CHR ''_'')) (plus alnum))) (str_ci ''.html'')"

definition extract_twinset_com_sku_from_url :: "string \<Rightarrow> string option" where
  "extract_twinset_com_sku_from_url url =
     map_option py_upper (re_search_group (lit (CHR ''-'')) sku_group_re sku_tail_re url)"

definition classify_clean :: "site_config \<Rightarrow> string \<Rightarrow> string" where
  "classify_clean site_cfg clean =
     (if key site_cfg = ''twinset.ru'' \<and> re_match_eol stale_path_re clean then ''other''
      else if re_match_eol (product_url_re site_cfg) clean
           then (if key site_cfg = ''twinset.com''
                 then (if truthy (extract_twinset_com_sku_from_url clean) then ''product''
                       else ''category'')
                 else ''product'')
      else if re_match_eol (category_url_re site_cfg) clean then ''category''
      else ''other'')"

definition classify_url :: "site_config \<Rightarrow> string \<Rightarrow> url_error + string" where
  "classify_url site_cfg url =
     (case strip_query_and_fragment url of
        Inl e \<Rightarrow> Inl e
      | Inr clean \<Rightarrow> Inr (classify_clean site_cfg clean))"

subsection \<open>What a pattern matches\<close>

text \<open>The set of strings a pattern matches in full; the matcher is measured against it.\<close>

inductive_set star_lang :: "string set \<Rightarrow> string set" for L :: "string set" where
  star_empty: "[] \<in> star_lang L"
| star_step: "x \<in> L \<Longrightarrow> y \<in> star_lang L \<Longrightarrow> x @ y \<in> star_lang L"

fun lang :: "regex \<Rightarrow> string set" where
  "lang (Sym p) = {[c] | c. p c}"
| "lang Eps = {[]}"
| "lang (Seq a b) = {x @ y | x y. x \<in> lang a \<and> y \<in> lang b}"
| "lang (Alt a b) = lang a \<union> lang b"
| "lang (Star a) = star_lang (lang a)"

text \<open>
  The claim's words for the SKU of a twinset.com URL: a token of three digits, two to five
  letters and then alphanumerics (at least two), which follows a hyphen and is followed,
  possibly after an underscore and more alphanumerics, by \<open>.html\<close> (in any case) at the
  end of the URL.
\<close>

definition sku_token :: "string \<Rightarrow> bool" where
  "sku_token w \<longleftrightarrow>
     (\<exists>d l a. w = d @ l @ a \<and> length d = 3 \<and> list_all is_digit d \<and>
              2 \<le> length l \<and> length l \<le> 5 \<and> list_all is_letter l \<and>
              2 \<le> length a \<and> list_all is_alnum a)"

definition sku_suffix :: "string \<Rightarrow> bool" where
  "sku_suffix suf \<longleftrightarrow> suf = [] \<or> (\<exists>x. suf = CHR ''_'' # x \<and> x \<noteq> [] \<and> list_all is_alnum x)"

definition sku_derivable :: "string \<Rightarrow> bool" where
  "sku_derivable u \<longleftrightarrow>
     (\<exists>pre tok suf ext nl. u = pre @ ''-'' @ tok @ suf @ ext @ nl \<and> sku_token tok \<and>
        sku_suffix suf \<and> py_lower ext = ''.html'' \<and> at_end nl)"

text \<open>The final path segment: what follows the last slash.\<close>

definition final_segment :: "string \<Rightarrow> string" where
  "final_segment u = rev (takeWhile (\<lambda>c. c \<noteq> CHR ''/'') (rev u))"

subsection \<open>Exceptions and the HTTP client (SimpleHttpClient)\<close>

text \<open>\<open>str(n)\<close> for an integer.\<close>

fun digits_of :: "nat \<Rightarrow> string" where
  "digits_of n =
     (if n < 10 then [char_of (48 + n)] else digits_of (n div 10) @ [char_of (48 + n mod 10)])"

definition py_str_int :: "int \<Rightarrow> string" where
  "py_str_int i = (if i < 0 then CHR ''-'' # digits_of (nat (- i)) else digits_of (nat i))"

text \<open>
  The exceptions that reach the crawl loops: \<open>urllib.error.HTTPError\<close> with its code and
  reason, \<open>RuntimeError\<close> and \<open>ValueError\<close> with their message, and any other exception
  with its text.
\<close>

datatype py_exception =
    HTTPError int string
  | RuntimeError string
  | ValueError string
  | OtherException string

fun str_exc :: "py_exception \<Rightarrow> string" where
  "str_exc (HTTPError code reason) = ''HTTP Error '' @ py_str_int code @ '': '' @ reason"
| "str_exc (RuntimeError m) = m"
| "str_exc (ValueError m) = m"
| "str_exc (OtherException m) = m"

definition safe_exc :: "py_exception \<Rightarrow> string" where
  "safe_exc exc = take 1200 (normalize_space (str_exc exc))"

fun exception_of :: "url_error \<Rightarrow> py_exception" where
  "exception_of Invalid_IPv6_URL = ValueError ''Invalid IPv6 URL''"
| "exception_of Bracketed_host = ValueError ''bracketed host''"

text \<open>
  What one attempt \<open>self.opener.open(req, timeout=...)\<close> with \<open>resp.read()\<close> does: it
  returns the body and the headers, raises \<open>HTTPError\<close>, raises a network-level error
  (\<open>URLError\<close>, \<open>TimeoutError\<close>, \<open>ConnectionError\<close>), or raises something else.
\<close>

datatype attempt_outcome =
    Response string "(string \<times> string) list"
  | Raises_HTTPError int string
  | Raises_network string
  | Raises_other string

type_synonym headers = "(string \<times> string) list"

text \<open>
  \<open>get_bytes\<close>: the loop \<open>for attempt in range(1, self.retries + 1)\<close> over the attempts
  still to make, with \<open>last_error\<close>. The second component lists the attempts after which
  \<open>time.sleep(1.2 * attempt)\<close> ran, in order.
\<close>

fun get_bytes_loop ::
  "string \<Rightarrow> int \<Rightarrow> (int \<Rightarrow> attempt_outcome) \<Rightarrow> int list \<Rightarrow> string option \<Rightarrow>
   (py_exception + string \<times> headers) \<times> int list" where
  "get_bytes_loop url retries opener [] last_error =
     (Inl (RuntimeError (''HTTP failed for '' @ url @ '': '' @
             (case last_error of None \<Rightarrow> ''None'' | Some e \<Rightarrow> e))), [])"
| "get_bytes_loop url retries opener (attempt # rest) last_error =
     (case opener attempt of
        Response raw hdrs \<Rightarrow> (Inr (raw, map (\<lambda>(k, v). (py_lower k, v)) hdrs), [])
      | Raises_HTTPError code reason \<Rightarrow>
          if attempt \<ge> retries then (Inl (HTTPError code reason), [])
          else (let (res, sleeps) = get_bytes_loop url retries opener rest
                                      (Some (str_exc (HTTPError code reason)))
                in (res, attempt # sleeps))
      | Raises_network m \<Rightarrow>
          if attempt \<ge> retries then get_bytes_loop url retries opener [] (Some m)
          else (let (res, sleeps) = get_bytes_loop url retries opener rest (Some m)
                in (res, attempt # sleeps))
      | Raises_other m \<Rightarrow> (Inl (OtherException m), []))"

definition get_bytes ::
  "int \<Rightarrow> (int \<Rightarrow> attempt_outcome) \<Rightarrow> string \<Rightarrow> (py_exception + string \<times> headers) \<times> int list" where
  "get_bytes retries opener url = get_bytes_loop url retries opener [1..retries] None"

text \<open>
  \<open>get_text\<close>: \<open>get_bytes\<close>, then the body decoded. The choice of the charset from the
  content-type header and the codec are the parameter \<open>decode\<close>.
\<close>

definition get_text ::
  "(headers \<Rightarrow> string \<Rightarrow> py_exception + string) \<Rightarrow> int \<Rightarrow> (int \<Rightarrow> attempt_outcome) \<Rightarrow> string \<Rightarrow>
   (py_exception + string \<times> headers) \<times> int list" where
  "get_text decode retries opener url =
     (case get_bytes retries opener url of
        (Inl exc, sleeps) \<Rightarrow> (Inl exc, sleeps)
      | (Inr (raw, hdrs), sleeps) \<Rightarrow>
          (case decode hdrs raw of
             Inl exc \<Rightarrow> (Inl exc, sleeps)
           | Inr text \<Rightarrow> (Inr (text, hdrs), sleeps)))"

subsection \<open>The crawl loop over pages (crawl\_urls)\<close>

text \<open>
  The run reads the clock and talks to the network; both are indexed by the number of such
  effects so far, which the loops carry next to the store. What the page parser, the link
  extractor and \<open>json.dumps\<close> compute is left open: they are fields of the environment.
  The pause between two iterations changes nothing here.
\<close>

record parsed_page =
  pp_sku :: "string option"
  pp_title :: "string option"
  pp_category_path :: "string option"

record crawl_env =
  now_iso :: "nat \<Rightarrow> string"
  client_get_bytes :: "nat \<Rightarrow> string \<Rightarrow> py_exception + string \<times> headers"
  client_get_text :: "nat \<Rightarrow> string \<Rightarrow> py_exception + string \<times> headers"
  loc_texts :: "string \<Rightarrow> string \<Rightarrow> py_exception + string list"
  parse_product :: "string \<Rightarrow> string \<Rightarrow> string \<Rightarrow> parsed_page"
  extract_links :: "string \<Rightarrow> string \<Rightarrow> py_exception + string list"
  dump_payload :: "headers \<Rightarrow> string \<Rightarrow> string"

text \<open>\<open>normalize_space(str(v or "")) or None\<close>, and the same with \<open>.upper()\<close>.\<close>

definition cleaned_field :: "string option \<Rightarrow> string option" where
  "cleaned_field v =
     (let s = normalize_space (case v of None \<Rightarrow> [] | Some x \<Rightarrow> x)
      in if s = [] then None else Some s)"

definition cleaned_upper_field :: "string option \<Rightarrow> string option" where
  "cleaned_upper_field v =
     (let s = py_upper (normalize_space (case v of None \<Rightarrow> [] | Some x \<Rightarrow> x))
      in if s = [] then None else Some s)"

text \<open>The loop \<open>for link in links\<close>; it stops at the first exception.\<close>

fun enqueue_links ::
  "site_config \<Rightarrow> crawl_env \<Rightarrow> string \<Rightarrow> int \<Rightarrow> string list \<Rightarrow> index_db \<times> nat \<Rightarrow>
   py_exception option \<times> index_db \<times> nat" where
  "enqueue_links site_cfg env url depth [] (db, t) = (None, db, t)"
| "enqueue_links site_cfg env url depth (link # links) (db, t) =
     (if \<not> prefix (base_url site_cfg) link then enqueue_links site_cfg env url depth links (db, t)
      else (case classify_url site_cfg link of
              Inl e \<Rightarrow> (Some (exception_of e), db, t)
            | Inr link_type \<Rightarrow>
                if link_type = ''product'' \<or> link_type = ''category''
                then enqueue_links site_cfg env url depth links
                       (enqueue_url (now_iso env t) db (key site_cfg) link link_type (depth + 1)
                          (Some url), Suc t)
                else enqueue_links site_cfg env url depth links (db, t)))"

text \<open>
  One iteration of the \<open>while\<close> loop for the dequeued row, given what
  \<open>client.get_text(url)\<close> returned or raised.
\<close>

definition crawl_page ::
  "site_config \<Rightarrow> crawl_env \<Rightarrow> int \<Rightarrow> bool \<Rightarrow> queue_row \<Rightarrow> (py_exception + string \<times> headers) \<Rightarrow>
   index_db \<times> nat \<Rightarrow> index_db \<times> nat" where
  "crawl_page site_cfg env max_depth discover_links row fetched st =
     (let (db, t) = st; url = q_url row; url_type = q_url_type row; depth = q_depth row;
          failed = (\<lambda>exc (db', t').
             (set_url_status (now_iso env t') db' (key site_cfg) url ''error'' None False
                (Some (safe_exc exc)), Suc t'))
      in case fetched of
           Inl (HTTPError code reason) \<Rightarrow>
             if code = 404 \<or> code = 410
             then (set_url_status (now_iso env t) db (key site_cfg) url ''gone'' (Some code) False
                     (Some (''HTTP '' @ py_str_int code)), Suc t)
             else (set_url_status (now_iso env t) db (key site_cfg) url ''error'' (Some code) False
                     (Some (safe_exc (HTTPError code reason))), Suc t)
         | Inl exc \<Rightarrow> failed exc (db, t)
         | Inr (page_html, hdrs) \<Rightarrow>
             if detect_block_page page_html
             then (set_url_status (now_iso env t) db (key site_cfg) url ''blocked'' (Some 200) True
                     (Some ''captcha_or_block''), Suc t)
             else
               (let (db1, t1) =
                      (if url_type = ''product''
                       then (let parsed = parse_product env (key site_cfg) page_html url
                             in (upsert_product (now_iso env t) (now_iso env (Suc t)) db
                                   (key site_cfg) url (cleaned_upper_field (pp_sku parsed))
                                   (cleaned_field (pp_title parsed))
                                   (cleaned_field (pp_category_path parsed))
                                   (dump_payload env hdrs url_type), Suc (Suc t)))
                       else (db, t));
                    finish = (\<lambda>(db', t').
                      (set_url_status (now_iso env t') db' (key site_cfg) url ''done'' (Some 200)
                         False None, Suc t'))
                in if discover_links \<and> depth < max_depth
                   then (case extract_links env page_html url of
                           Inl exc \<Rightarrow> failed exc (db1, t1)
                         | Inr links \<Rightarrow>
                             (case enqueue_links site_cfg env url depth links (db1, t1) of
                                (Some exc, st') \<Rightarrow> failed exc st'
                              | (None, st') \<Rightarrow> finish st'))
                   else finish (db1, t1)))"

text \<open>
  The \<open>while True\<close> loop with the number of iterations it may still make: \<open>None\<close> when
  they do not suffice. The result is the store, the effect counter and \<open>processed\<close>.
\<close>

fun crawl_urls_loop ::
  "nat \<Rightarrow> site_config \<Rightarrow> crawl_env \<Rightarrow> int option \<Rightarrow> int \<Rightarrow> bool \<Rightarrow> index_db \<times> nat \<Rightarrow> int \<Rightarrow>
   (index_db \<times> nat \<times> int) option" where
  "crawl_urls_loop 0 site_cfg env max_pages max_depth discover_links st processed = None"
| "crawl_urls_loop (Suc fuel) site_cfg env max_pages max_depth discover_links (db, t) processed =
     (if (case max_pages of None \<Rightarrow> False | Some m \<Rightarrow> processed \<ge> m) then Some (db, t, processed)
      else (case next_pending_url db (key site_cfg) [''product'', ''category''] max_depth of
              None \<Rightarrow> Some (db, t, processed)
            | Some row \<Rightarrow>
                crawl_urls_loop fuel site_cfg env max_pages max_depth discover_links
                  (crawl_page site_cfg env max_depth discover_links row
                     (client_get_text env t (q_url row)) (db, Suc t))
                  (processed + 1)))"

text \<open>The seeds \<open>for seed in site_cfg.seed_category_urls\<close>, then the loop.\<close>

fun enqueue_seeds ::
  "site_config \<Rightarrow> crawl_env \<Rightarrow> string list \<Rightarrow> index_db \<times> nat \<Rightarrow> py_exception + index_db \<times> nat" where
  "enqueue_seeds site_cfg env [] st = Inr st"
| "enqueue_seeds site_cfg env (seed # seeds) (db, t) =
     (case strip_query_and_fragment seed of
        Inl e \<Rightarrow> Inl (exception_of e)
      | Inr clean \<Rightarrow>
          enqueue_seeds site_cfg env seeds
            (enqueue_url (now_iso env t) db (key site_cfg) clean ''category'' 0 (Some ''seed''),
             Suc t))"

definition crawl_urls ::
  "nat \<Rightarrow> site_config \<Rightarrow> crawl_env \<Rightarrow> int option \<Rightarrow> int \<Rightarrow> bool \<Rightarrow> index_db \<times> nat \<Rightarrow>
   py_exception + (index_db \<times> nat \<times> int) option" where
  "crawl_urls fuel site_cfg env max_pages max_depth discover_links st =
     (case enqueue_seeds site_cfg env (seed_category_urls site_cfg) st of
        Inl exc \<Rightarrow> Inl exc
      | Inr st' \<Rightarrow> Inr (crawl_urls_loop fuel site_cfg env max_pages max_depth discover_links st' 0))"

text \<open>A client that is answered 404 at every attempt, and an environment for examples.\<close>

definition always_404 :: "int \<Rightarrow> attempt_outcome" where
  "always_404 attempt = Raises_HTTPError 404 ''Not Found''"

definition example_env :: crawl_env where
  "example_env =
     \<lparr>now_iso = (\<lambda>t. ''2026-01-02T00:00:'' @ digits_of (10 + t) @ ''+00:00''),
      client_get_bytes = (\<lambda>t url. fst (get_bytes 3 always_404 url)),
      client_get_text = (\<lambda>t url. fst (get_text (\<lambda>hdrs raw. Inr raw) 3 always_404 url)),
      loc_texts = (\<lambda>raw url. Inr []),
      parse_product = (\<lambda>site page_html url. \<lparr>pp_sku = None, pp_title = None, pp_category_path = None\<rparr>),
      extract_links = (\<lambda>page_html url. Inr []),
      dump_payload = (\<lambda>hdrs url_type. ''{}'')\<rparr>"

subsection \<open>Sitemap resolution (crawl\_sitemaps)\<close>
















text \<open>
  The scenario of a sitemap index with two leaf sitemaps of one product URL each: the only
  candidate is the index; its locs are two different sitemap URLs; each of these has one
  loc, which is classified as a product; the two products differ; every fetch succeeds.
  The capital names are the normalised forms.
\<close>

type_synonym url = string




section \<open>Properties\<close>

subsection \<open>The queue store\<close>

lemma queue_before_key: "queue_before a b \<longleftrightarrow> queue_key a < queue_key b"
  by (auto simp: queue_before_def queue_key_def less_prod_def)

lemma first_min_by_mem: "first_min_by lt best rs \<in> set (best # rs)"
  by (induction rs arbitrary: best) auto

lemma first_min_by_least:
  fixes key :: "'a \<Rightarrow> 'k::linorder"
  assumes "\<And>a b. lt a b \<longleftrightarrow> key a < key b"
  shows "\<forall>x \<in> set (best # rs). key (first_min_by lt best rs) \<le> key x"
proof (induction rs arbitrary: best)
  case Nil
  show ?case by simp
next
  case (Cons r rs)
  let ?b = "if lt r best then r else best"
  have ih: "\<forall>x \<in> set (?b # rs). key (first_min_by lt ?b rs) \<le> key x"
    by (rule Cons.IH)
  then have b: "key (first_min_by lt ?b rs) \<le> key ?b" by simp
  have "key ?b \<le> key r" "key ?b \<le> key best"
    using assms by (auto simp: not_less)
  with b have "key (first_min_by lt ?b rs) \<le> key r" "key (first_min_by lt ?b rs) \<le> key best"
    by auto
  with ih show ?case by auto
qed

lemma select_first_None: "select_first lt rows = None \<longleftrightarrow> rows = []"
  by (simp add: select_first_def split: list.splits)

lemma select_first_Some:
  fixes key :: "'a \<Rightarrow> 'k::linorder"
  assumes "\<And>a b. lt a b \<longleftrightarrow> key a < key b" and "select_first lt rows = Some r"
  shows "r \<in> set rows \<and> (\<forall>x \<in> set rows. key r \<le> key x)"
proof (cases rows)
  case Nil
  with assms(2) show ?thesis by (simp add: select_first_def)
next
  case (Cons a as)
  with assms(2) have r: "r = first_min_by lt a as" by (simp add: select_first_def)
  show ?thesis
    unfolding Cons r using first_min_by_mem[of lt a as] first_min_by_least[of lt key a as, OF assms(1)]
    by blast
qed

text \<open>
  C6. \<open>next_pending_url(site, allowed_types, max_depth)\<close> returns a row only if it is a
  row of the table for that site whose status is \<open>pending\<close>, whose url\_type is among
  \<open>allowed_types\<close> and whose depth is at most \<open>max_depth\<close>; the row returned is
  minimal among all such rows in the lexicographic order of (depth, attempts, updated\_at);
  and it returns nothing exactly when the table has no such row.
\<close>

theorem next_pending_url_minimal:
  "(case next_pending_url db site allowed_types max_depth of
      None \<Rightarrow> \<not> (\<exists>r \<in> set (url_queue db). pending_candidate site allowed_types max_depth r)
    | Some r \<Rightarrow>
        r \<in> set (url_queue db) \<and> q_site r = site \<and> q_status r = ''pending'' \<and>
        q_url_type r \<in> set allowed_types \<and> q_depth r \<le> max_depth \<and>
        (\<forall>r' \<in> set (url_queue db). pending_candidate site allowed_types max_depth r' \<longrightarrow>
           (q_depth r, q_attempts r, q_updated_at r) \<le> (q_depth r', q_attempts r', q_updated_at r')))"
proof (cases "next_pending_url db site allowed_types max_depth")
  case None
  then have "filter (pending_candidate site allowed_types max_depth) (url_queue db) = []"
    by (simp add: next_pending_url_def select_first_None)
  then have "\<not> (\<exists>r \<in> set (url_queue db). pending_candidate site allowed_types max_depth r)"
    by (simp add: filter_empty_conv)
  with None show ?thesis by simp
next
  case (Some r)
  from select_first_Some[of queue_before queue_key _ r, OF queue_before_key]
    Some[unfolded next_pending_url_def]
  have "r \<in> set (filter (pending_candidate site allowed_types max_depth) (url_queue db))"
    and "\<forall>x \<in> set (filter (pending_candidate site allowed_types max_depth) (url_queue db)).
           queue_key r \<le> queue_key x"
    by blast+
  then show ?thesis
    unfolding Some by (auto simp: pending_candidate_def queue_key_def)
qed

theorem next_pending_url_minimal_witness:
  "\<exists>r. next_pending_url example_queue ''twinset.ru'' [''product'', ''category''] 2 = Some r \<and>
       q_url r = ''https://twinset.ru/catalog/b/'' \<and>
       (\<forall>r' \<in> set (url_queue example_queue).
          pending_candidate ''twinset.ru'' [''product'', ''category''] 2 r' \<longrightarrow>
          (q_depth r, q_attempts r, q_updated_at r) \<le> (q_depth r', q_attempts r', q_updated_at r'))"
proof -
  have "\<exists>r. next_pending_url example_queue ''twinset.ru'' [''product'', ''category''] 2 = Some r \<and>
       q_url r = ''https://twinset.ru/catalog/b/''"
    by (simp add: next_pending_url_def select_first_def example_queue_def empty_db_def
        pending_candidate_def queue_before_def)
  then obtain r where r: "next_pending_url example_queue ''twinset.ru'' [''product'', ''category''] 2 = Some r"
    "q_url r = ''https://twinset.ru/catalog/b/''" by blast
  show ?thesis
    using next_pending_url_minimal[of example_queue "''twinset.ru''" "[''product'', ''category'']" 2] r
    by auto
qed

text \<open>
  C4. Enqueuing a (site, url) key that is already in url\_queue returns the store as it
  was: no second row, and no field of the existing row changes.
\<close>

theorem enqueue_url_existing_key:
  assumes "\<exists>r \<in> set (url_queue db). q_site r = site \<and> q_url r = url"
  shows "enqueue_url now db site url url_type depth discovered_from = db"
  using assms by (simp add: enqueue_url_def list_ex_iff)


theorem enqueue_url_existing_key_witness:
  "enqueue_url ''2026-01-02T00:00:00+00:00'' example_queue ''twinset.ru''
     ''https://twinset.ru/catalog/a/1/'' ''category'' 0 (Some ''seed'') = example_queue"
  by (rule enqueue_url_existing_key) (simp add: example_queue_def empty_db_def)

text \<open>
  C5. \<open>reset_errors(site)\<close> keeps the rows of url\_queue in place; a row of that site
  whose status is \<open>error\<close> or \<open>blocked\<close> gets status \<open>pending\<close>, blocked 0 and
  last\_error NULL (and the current time), its other columns unchanged; every other row,
  and every other table, is unchanged.
\<close>

theorem reset_errors_exact:
  "(let db' = fst (reset_errors now db site) in
     length (url_queue db') = length (url_queue db) \<and>
     (\<forall>i < length (url_queue db).
        let r = url_queue db ! i; r' = url_queue db' ! i in
        if q_site r = site \<and> (q_status r = ''error'' \<or> q_status r = ''blocked'')
        then q_status r' = ''pending'' \<and> q_blocked r' = 0 \<and> q_last_error r' = None \<and>
             q_updated_at r' = now \<and>
             q_site r' = q_site r \<and> q_url r' = q_url r \<and> q_url_type r' = q_url_type r \<and>
             q_depth r' = q_depth r \<and> q_discovered_from r' = q_discovered_from r \<and>
             q_attempts r' = q_attempts r \<and> q_last_http_status r' = q_last_http_status r
        else r' = r) \<and>
     sitemaps db' = sitemaps db \<and> products db' = products db \<and> sku_index db' = sku_index db)"
  by (auto simp: reset_errors_def reset_target_def Let_def)

theorem reset_errors_exact_witness:
  "(1::nat) < length (url_queue example_queue) \<and>
   q_site (url_queue example_queue ! 1) = ''twinset.ru'' \<and>
   q_status (url_queue example_queue ! 1) = ''error'' \<and>
   q_status (url_queue (fst (reset_errors ''2026-01-03T00:00:00+00:00'' example_queue ''twinset.ru'')) ! 1)
     = ''pending'' \<and>
   q_last_error (url_queue (fst (reset_errors ''2026-01-03T00:00:00+00:00'' example_queue ''twinset.ru'')) ! 1)
     = None \<and>
   (4::nat) < length (url_queue example_queue) \<and>
   q_site (url_queue example_queue ! 4) \<noteq> ''twinset.ru'' \<and>
   url_queue (fst (reset_errors ''2026-01-03T00:00:00+00:00'' example_queue ''twinset.ru'')) ! 4
     = url_queue example_queue ! 4"
proof -
  have a: "(1::nat) < length (url_queue example_queue)"
    "q_site (url_queue example_queue ! 1) = ''twinset.ru''"
    "q_status (url_queue example_queue ! 1) = ''error''"
    "(4::nat) < length (url_queue example_queue)"
    "q_site (url_queue example_queue ! 4) \<noteq> ''twinset.ru''"
    by (simp_all add: example_queue_def empty_db_def)
  from reset_errors_exact[of "''2026-01-03T00:00:00+00:00''" example_queue "''twinset.ru''"]
  have all: "\<forall>i < length (url_queue example_queue).
        let r = url_queue example_queue ! i;
            r' = url_queue (fst (reset_errors ''2026-01-03T00:00:00+00:00'' example_queue ''twinset.ru'')) ! i in
        if q_site r = ''twinset.ru'' \<and> (q_status r = ''error'' \<or> q_status r = ''blocked'')
        then q_status r' = ''pending'' \<and> q_blocked r' = 0 \<and> q_last_error r' = None \<and>
             q_updated_at r' = ''2026-01-03T00:00:00+00:00'' \<and>
             q_site r' = q_site r \<and> q_url r' = q_url r \<and> q_url_type r' = q_url_type r \<and>
             q_depth r' = q_depth r \<and> q_discovered_from r' = q_discovered_from r \<and>
             q_attempts r' = q_attempts r \<and> q_last_http_status r' = q_last_http_status r
        else r' = r"
    unfolding Let_def by blast
  from all[rule_format, OF a(1)] a(2,3) have one:
    "q_status (url_queue (fst (reset_errors ''2026-01-03T00:00:00+00:00'' example_queue ''twinset.ru'')) ! 1)
       = ''pending''"
    "q_last_error (url_queue (fst (reset_errors ''2026-01-03T00:00:00+00:00'' example_queue ''twinset.ru'')) ! 1)
       = None"
    unfolding Let_def by simp_all
  from all[rule_format, OF a(4)] a(5) have four:
    "url_queue (fst (reset_errors ''2026-01-03T00:00:00+00:00'' example_queue ''twinset.ru'')) ! 4
       = url_queue example_queue ! 4"
    unfolding Let_def by simp
  from a one four show ?thesis by blast
qed

subsection \<open>Block pages\<close>

lemma py_in_sublist: "py_in sub s \<longleftrightarrow> sublist sub s"
  by (induction s) (auto simp: sublist_Cons_right)

lemma occurs_ci_py_in: "occurs_ci marker page \<longleftrightarrow> py_in marker (py_lower page)"
proof
  assume "occurs_ci marker page"
  then obtain pre mid post where "page = pre @ mid @ post" "py_lower mid = marker"
    unfolding occurs_ci_def by blast
  then have "py_lower page = py_lower pre @ marker @ py_lower post"
    by (simp add: py_lower_def)
  then show "py_in marker (py_lower page)"
    unfolding py_in_sublist sublist_def by blast
next
  assume "py_in marker (py_lower page)"
  then obtain ps ss where "map lower_char page = ps @ marker @ ss"
    unfolding py_in_sublist sublist_def py_lower_def by blast
  then obtain pre r where 1: "page = pre @ r" "map lower_char r = marker @ ss"
    by (metis map_eq_append_conv)
  then obtain mid post where "r = mid @ post" "map lower_char mid = marker"
    by (metis map_eq_append_conv)
  with 1 show "occurs_ci marker page"
    unfolding occurs_ci_def py_lower_def by blast
qed

lemma distinct_markers: "distinct markers"
  by (simp add: markers_def)

lemma score_card:
  "length (filter (\<lambda>marker. py_in marker (py_lower page)) markers)
     = card {m \<in> set markers. occurs_ci m page}"
proof -
  have "{m \<in> set markers. occurs_ci m page} = {m. py_in m (py_lower page)} \<inter> set markers"
    by (auto simp: occurs_ci_py_in)
  then show ?thesis
    using distinct_length_filter[OF distinct_markers, of "\<lambda>marker. py_in marker (py_lower page)"]
    by simp
qed

lemma two_markers:
  assumes "a \<in> set markers" "b \<in> set markers" "a \<noteq> b" "occurs_ci a page" "occurs_ci b page"
  shows "2 \<le> card {m \<in> set markers. occurs_ci m page}"
proof -
  have "{a, b} \<subseteq> {m \<in> set markers. occurs_ci m page}" using assms by auto
  then have "card {a, b} \<le> card {m \<in> set markers. occurs_ci m page}"
    by (intro card_mono) auto
  with assms(3) show ?thesis by simp
qed

lemma one_marker:
  assumes "\<forall>m \<in> set markers. m \<noteq> a \<longrightarrow> \<not> occurs_ci m page"
  shows "card {m \<in> set markers. occurs_ci m page} \<le> 1"
proof -
  have "{m \<in> set markers. occurs_ci m page} \<subseteq> {a}" using assms by auto
  then have "card {m \<in> set markers. occurs_ci m page} \<le> card {a}"
    by (intro card_mono) auto
  then show ?thesis by simp
qed

text \<open>
  C3. A page is classified as blocked if and only if at least two of the six markers
  occur in it case-insensitively, or \<open>cf-challenge\<close> does. So a page with both
  \<open>captcha\<close> and \<open>access denied\<close> is blocked, a page whose only marker is
  \<open>captcha\<close> is not, and a page with \<open>cf-challenge\<close> is.
\<close>

theorem detect_block_page_markers:
  "(detect_block_page page \<longleftrightarrow>
      2 \<le> card {m \<in> set markers. occurs_ci m page} \<or> occurs_ci ''cf-challenge'' page) \<and>
   (occurs_ci ''captcha'' page \<and> occurs_ci ''access denied'' page \<longrightarrow> detect_block_page page) \<and>
   (occurs_ci ''captcha'' page \<and> (\<forall>m \<in> set markers. m \<noteq> ''captcha'' \<longrightarrow> \<not> occurs_ci m page)
      \<longrightarrow> \<not> detect_block_page page) \<and>
   (occurs_ci ''cf-challenge'' page \<longrightarrow> detect_block_page page)"
proof -
  have main: "detect_block_page page \<longleftrightarrow>
      2 \<le> card {m \<in> set markers. occurs_ci m page} \<or> occurs_ci ''cf-challenge'' page"
    by (simp add: detect_block_page_def Let_def score_card occurs_ci_py_in)
  have both: "occurs_ci ''captcha'' page \<and> occurs_ci ''access denied'' page \<longrightarrow> detect_block_page page"
    using two_markers[of "''captcha''" "''access denied''" page] main
    by (simp add: markers_def)
  have only: "occurs_ci ''captcha'' page \<and> (\<forall>m \<in> set markers. m \<noteq> ''captcha'' \<longrightarrow> \<not> occurs_ci m page)
      \<longrightarrow> \<not> detect_block_page page"
  proof (intro impI, elim conjE)
    assume a: "\<forall>m \<in> set markers. m \<noteq> ''captcha'' \<longrightarrow> \<not> occurs_ci m page"
    from one_marker[OF a] have "\<not> 2 \<le> card {m \<in> set markers. occurs_ci m page}" by simp
    moreover from a have "\<not> occurs_ci ''cf-challenge'' page" by (simp add: markers_def)
    ultimately show "\<not> detect_block_page page" using main by simp
  qed
  from main both only show ?thesis by blast
qed

theorem detect_block_page_markers_witness:
  "occurs_ci ''captcha'' ''Solve the CAPTCHA: Access Denied'' \<and>
   occurs_ci ''access denied'' ''Solve the CAPTCHA: Access Denied'' \<and>
   detect_block_page ''Solve the CAPTCHA: Access Denied'' \<and>
   occurs_ci ''captcha'' ''Solve the CAPTCHA'' \<and>
   \<not> occurs_ci ''attention required!'' ''Solve the CAPTCHA'' \<and>
   \<not> occurs_ci ''cf-challenge'' ''Solve the CAPTCHA'' \<and>
   \<not> occurs_ci ''verify you are a human'' ''Solve the CAPTCHA'' \<and>
   \<not> occurs_ci ''access denied'' ''Solve the CAPTCHA'' \<and>
   \<not> occurs_ci ''temporarily unavailable'' ''Solve the CAPTCHA'' \<and>
   \<not> detect_block_page ''Solve the CAPTCHA'' \<and>
   occurs_ci ''cf-challenge'' ''<div id=\"CF-Challenge\">'' \<and>
   detect_block_page ''<div id=\"CF-Challenge\">''"
proof -
  have a: "occurs_ci ''captcha'' ''Solve the CAPTCHA: Access Denied''"
    "occurs_ci ''access denied'' ''Solve the CAPTCHA: Access Denied''"
    "occurs_ci ''captcha'' ''Solve the CAPTCHA''"
    "\<not> occurs_ci ''attention required!'' ''Solve the CAPTCHA''"
    "\<not> occurs_ci ''cf-challenge'' ''Solve the CAPTCHA''"
    "\<not> occurs_ci ''verify you are a human'' ''Solve the CAPTCHA''"
    "\<not> occurs_ci ''access denied'' ''Solve the CAPTCHA''"
    "\<not> occurs_ci ''temporarily unavailable'' ''Solve the CAPTCHA''"
    "occurs_ci ''cf-challenge'' ''<div id=\"CF-Challenge\">''"
    unfolding occurs_ci_py_in by code_simp+
  then have "\<forall>m \<in> set markers. m \<noteq> ''captcha'' \<longrightarrow> \<not> occurs_ci m ''Solve the CAPTCHA''"
    by (simp add: markers_def)
  with a detect_block_page_markers[of "''Solve the CAPTCHA: Access Denied''"]
    detect_block_page_markers[of "''Solve the CAPTCHA''"]
    detect_block_page_markers[of "''<div id=\"CF-Challenge\">''"]
  show ?thesis by blast
qed

subsection \<open>Products and the SKU index\<close>

lemma upsert_sku_row_keys:
  assumes "r \<in> set rows"
  shows "\<exists>r' \<in> set (upsert_sku_row now rows site sku url title cat).
     si_site r' = si_site r \<and> si_sku r' = si_sku r \<and> si_url r' = si_url r"
proof (cases "list_ex (\<lambda>r. si_site r = site \<and> si_sku r = sku \<and> si_url r = url) rows")
  case True
  define g :: "sku_row \<Rightarrow> sku_row" where "g = (\<lambda>r. if si_site r = site \<and> si_sku r = sku \<and> si_url r = url
                     then r\<lparr>si_title := title, si_category_path := cat, si_updated_at := now\<rparr>
                     else r)"
  have "g r \<in> set (map g rows)" using assms by simp
  moreover have "si_site (g r) = si_site r \<and> si_sku (g r) = si_sku r \<and> si_url (g r) = si_url r"
    by (simp add: g_def)
  moreover have "upsert_sku_row now rows site sku url title cat = map g rows"
    using True by (simp add: upsert_sku_row_def g_def)
  ultimately show ?thesis by metis
next
  case False
  then have "r \<in> set (upsert_sku_row now rows site sku url title cat)"
    using assms by (simp add: upsert_sku_row_def)
  then show ?thesis by blast
qed

lemma upsert_sku_row_length:
  "length rows \<le> length (upsert_sku_row now rows site sku url title cat)"
  by (simp add: upsert_sku_row_def)

lemma upsert_sku_row_has:
  "\<exists>r \<in> set (upsert_sku_row now rows site sku url title cat).
     si_site r = site \<and> si_sku r = sku \<and> si_url r = url"
proof (cases "list_ex (\<lambda>r. si_site r = site \<and> si_sku r = sku \<and> si_url r = url) rows")
  case True
  then obtain r where r: "r \<in> set rows" "si_site r = site \<and> si_sku r = sku \<and> si_url r = url"
    unfolding list_ex_iff by blast
  from upsert_sku_row_keys[OF r(1), of now site sku url title cat] r(2) show ?thesis by simp
next
  case False
  then show ?thesis by (simp add: upsert_sku_row_def)
qed

lemma upsert_products_row_has:
  "\<exists>p \<in> set (upsert_products_row now rows site url sku title cat pl).
     p_site p = site \<and> p_url p = url"
proof (cases "list_ex (\<lambda>r. p_site r = site \<and> p_url r = url) rows")
  case True
  then obtain r where r: "r \<in> set rows" "p_site r = site \<and> p_url r = url"
    unfolding list_ex_iff by blast
  define g :: "product_row \<Rightarrow> product_row" where "g = (\<lambda>r. if p_site r = site \<and> p_url r = url
                     then r\<lparr>p_sku := sku, p_title := title, p_category_path := cat,
                            p_payload_json := Some pl, p_updated_at := now\<rparr>
                     else r)"
  have "g r \<in> set (map g rows)" using r(1) by simp
  moreover have "p_site (g r) = site \<and> p_url (g r) = url" using r(2) by (simp add: g_def)
  moreover have "upsert_products_row now rows site url sku title cat pl = map g rows"
    using True by (simp add: upsert_products_row_def g_def)
  ultimately show ?thesis by metis
next
  case False
  then show ?thesis by (simp add: upsert_products_row_def)
qed

lemma upsert_products_row_sku:
  assumes "p \<in> set (upsert_products_row now rows site url sku title cat pl)"
    and "p_site p = site" and "p_url p = url"
  shows "p_sku p = sku"
proof (cases "list_ex (\<lambda>r. p_site r = site \<and> p_url r = url) rows")
  case True
  with assms(1) obtain r where "r \<in> set rows"
    "p = (if p_site r = site \<and> p_url r = url
          then r\<lparr>p_sku := sku, p_title := title, p_category_path := cat,
                 p_payload_json := Some pl, p_updated_at := now\<rparr>
          else r)"
    unfolding upsert_products_row_def set_map by (auto simp del: image_iff)
  with assms(2,3) show ?thesis by (cases "p_site r = site \<and> p_url r = url") auto
next
  case False
  with assms(1) have "p \<in> set rows \<or> p = \<lparr>p_site = site, p_url = url, p_sku = sku, p_title = title,
                     p_category_path = cat, p_payload_json = Some pl,
                     p_updated_at = now\<rparr>"
    unfolding upsert_products_row_def by auto
  moreover have "p \<notin> set rows" using False assms(2,3) unfolding list_ex_iff by blast
  ultimately have "p = \<lparr>p_site = site, p_url = url, p_sku = sku, p_title = title,
                     p_category_path = cat, p_payload_json = Some pl,
                     p_updated_at = now\<rparr>" by blast
  then have "p_sku p = p_sku \<lparr>p_site = site, p_url = url, p_sku = sku, p_title = title,
                     p_category_path = cat, p_payload_json = Some pl,
                     p_updated_at = now\<rparr>" by (rule arg_cong)
  then show ?thesis by simp
qed

lemma sku_index_upsert_product:
  "sku_index (upsert_product n1 n2 db site url sku title cat pl) =
     (case sku of None \<Rightarrow> sku_index db
      | Some k \<Rightarrow> if k = [] then sku_index db
                  else upsert_sku_row n2 (sku_index db) site k url title cat)"
  by (simp add: upsert_product_def Let_def split: option.splits)

lemma products_upsert_product:
  "products (upsert_product n1 n2 db site url sku title cat pl) =
     upsert_products_row n1 (products db) site url sku title cat pl"
  by (simp add: upsert_product_def Let_def split: option.splits)

text \<open>
  C10. \<open>upsert_product\<close> leaves sku\_index as it is when the SKU is \<open>None\<close> or empty, and
  otherwise makes sure a row with the key (site, sku, url) is there; no key of sku\_index
  ever disappears and the table never shrinks. When the same (site, url) is upserted
  first with one SKU and later with a different one, sku\_index holds both
  (site, old, url) and (site, new, url), while every products row of (site, url), and
  there is one, carries the new SKU.
\<close>

theorem upsert_product_sku_index:
  "(\<not> truthy sku \<longrightarrow>
      sku_index (upsert_product n1 n2 db site url sku title cat pl) = sku_index db) \<and>
   (\<forall>k. sku = Some k \<and> k \<noteq> [] \<longrightarrow>
      (\<exists>r \<in> set (sku_index (upsert_product n1 n2 db site url sku title cat pl)).
         si_site r = site \<and> si_sku r = k \<and> si_url r = url)) \<and>
   (\<forall>r \<in> set (sku_index db).
      \<exists>r' \<in> set (sku_index (upsert_product n1 n2 db site url sku title cat pl)).
        si_site r' = si_site r \<and> si_sku r' = si_sku r \<and> si_url r' = si_url r) \<and>
   length (sku_index db) \<le> length (sku_index (upsert_product n1 n2 db site url sku title cat pl)) \<and>
   (old_sku \<noteq> [] \<and> new_sku \<noteq> [] \<and> old_sku \<noteq> new_sku \<longrightarrow>
      (let db2 = upsert_product n3 n4
                   (upsert_product n1 n2 db site url (Some old_sku) title cat pl)
                   site url (Some new_sku) title' cat' pl'
       in (\<exists>r \<in> set (sku_index db2). si_site r = site \<and> si_sku r = old_sku \<and> si_url r = url) \<and>
          (\<exists>r \<in> set (sku_index db2). si_site r = site \<and> si_sku r = new_sku \<and> si_url r = url) \<and>
          (\<exists>p \<in> set (products db2). p_site p = site \<and> p_url p = url) \<and>
          (\<forall>p \<in> set (products db2). p_site p = site \<and> p_url p = url \<longrightarrow> p_sku p = Some new_sku)))"
proof -
  let ?db1 = "upsert_product n1 n2 db site url sku title cat pl"
  have a: "\<not> truthy sku \<longrightarrow> sku_index ?db1 = sku_index db"
    by (cases sku) (simp_all add: sku_index_upsert_product)
  have b: "\<forall>k. sku = Some k \<and> k \<noteq> [] \<longrightarrow>
      (\<exists>r \<in> set (sku_index ?db1). si_site r = site \<and> si_sku r = k \<and> si_url r = url)"
    using upsert_sku_row_has by (auto simp: sku_index_upsert_product)
  have c: "\<forall>r \<in> set (sku_index db).
      \<exists>r' \<in> set (sku_index ?db1).
        si_site r' = si_site r \<and> si_sku r' = si_sku r \<and> si_url r' = si_url r"
    using upsert_sku_row_keys
    by (auto simp: sku_index_upsert_product split: option.splits)
  have d: "length (sku_index db) \<le> length (sku_index ?db1)"
    using upsert_sku_row_length
    by (auto simp: sku_index_upsert_product split: option.splits)
  have e: "old_sku \<noteq> [] \<and> new_sku \<noteq> [] \<and> old_sku \<noteq> new_sku \<longrightarrow>
      (let db2 = upsert_product n3 n4
                   (upsert_product n1 n2 db site url (Some old_sku) title cat pl)
                   site url (Some new_sku) title' cat' pl'
       in (\<exists>r \<in> set (sku_index db2). si_site r = site \<and> si_sku r = old_sku \<and> si_url r = url) \<and>
          (\<exists>r \<in> set (sku_index db2). si_site r = site \<and> si_sku r = new_sku \<and> si_url r = url) \<and>
          (\<exists>p \<in> set (products db2). p_site p = site \<and> p_url p = url) \<and>
          (\<forall>p \<in> set (products db2). p_site p = site \<and> p_url p = url \<longrightarrow> p_sku p = Some new_sku))"
  proof (intro impI, elim conjE)
    assume ne: "old_sku \<noteq> []" "new_sku \<noteq> []" "old_sku \<noteq> new_sku"
    let ?mid = "upsert_product n1 n2 db site url (Some old_sku) title cat pl"
    let ?db2 = "upsert_product n3 n4 ?mid site url (Some new_sku) title' cat' pl'"
    have mid: "\<exists>r \<in> set (sku_index ?mid). si_site r = site \<and> si_sku r = old_sku \<and> si_url r = url"
      using ne upsert_sku_row_has by (simp add: sku_index_upsert_product)
    have s2: "sku_index ?db2 = upsert_sku_row n4 (sku_index ?mid) site new_sku url title' cat'"
      using ne by (simp add: sku_index_upsert_product)
    have old: "\<exists>r \<in> set (sku_index ?db2). si_site r = site \<and> si_sku r = old_sku \<and> si_url r = url"
      unfolding s2 using mid upsert_sku_row_keys[of _ "sku_index ?mid" n4 site new_sku url title' cat']
      by metis
    have new: "\<exists>r \<in> set (sku_index ?db2). si_site r = site \<and> si_sku r = new_sku \<and> si_url r = url"
      unfolding s2 by (rule upsert_sku_row_has)
    have p1: "\<exists>p \<in> set (products ?db2). p_site p = site \<and> p_url p = url"
      unfolding products_upsert_product by (rule upsert_products_row_has)
    have p2: "\<forall>p \<in> set (products ?db2). p_site p = site \<and> p_url p = url \<longrightarrow> p_sku p = Some new_sku"
      unfolding products_upsert_product using upsert_products_row_sku by blast
    from old new p1 p2 show "let db2 = ?db2 in
          (\<exists>r \<in> set (sku_index db2). si_site r = site \<and> si_sku r = old_sku \<and> si_url r = url) \<and>
          (\<exists>r \<in> set (sku_index db2). si_site r = site \<and> si_sku r = new_sku \<and> si_url r = url) \<and>
          (\<exists>p \<in> set (products db2). p_site p = site \<and> p_url p = url) \<and>
          (\<forall>p \<in> set (products db2). p_site p = site \<and> p_url p = url \<longrightarrow> p_sku p = Some new_sku)"
      unfolding Let_def by blast
  qed
  from a b c d e show ?thesis by blast
qed

theorem upsert_product_sku_index_witness:
  "map (\<lambda>r. (si_site r, si_sku r, si_url r))
     (sku_index (upsert_product ''t3'' ''t4''
        (upsert_product ''t1'' ''t2'' empty_db ''twinset.ru'' ''https://twinset.ru/catalog/a/1/''
           (Some ''241TP2070'') None None ''{}'')
        ''twinset.ru'' ''https://twinset.ru/catalog/a/1/'' (Some ''241TP2071'') None None ''{}''))
   = [(''twinset.ru'', ''241TP2070'', ''https://twinset.ru/catalog/a/1/''),
      (''twinset.ru'', ''241TP2071'', ''https://twinset.ru/catalog/a/1/'')] \<and>
   map (\<lambda>p. (p_site p, p_url p, p_sku p))
     (products (upsert_product ''t3'' ''t4''
        (upsert_product ''t1'' ''t2'' empty_db ''twinset.ru'' ''https://twinset.ru/catalog/a/1/''
           (Some ''241TP2070'') None None ''{}'')
        ''twinset.ru'' ''https://twinset.ru/catalog/a/1/'' (Some ''241TP2071'') None None ''{}''))
   = [(''twinset.ru'', ''https://twinset.ru/catalog/a/1/'', Some ''241TP2071'')] \<and>
   sku_index (upsert_product ''t5'' ''t6'' empty_db ''twinset.ru'' ''https://twinset.ru/catalog/a/1/''
                (Some '''') None None ''{}'') = [] \<and>
   (\<exists>r \<in> set (sku_index (upsert_product ''t3'' ''t4''
        (upsert_product ''t1'' ''t2'' empty_db ''twinset.ru'' ''https://twinset.ru/catalog/a/1/''
           (Some ''241TP2070'') None None ''{}'')
        ''twinset.ru'' ''https://twinset.ru/catalog/a/1/'' (Some ''241TP2071'') None None ''{}'')).
      si_site r = ''twinset.ru'' \<and> si_sku r = ''241TP2070'' \<and> si_url r = ''https://twinset.ru/catalog/a/1/'')"
proof -
  have ne: "''241TP2070'' \<noteq> [] \<and> ''241TP2071'' \<noteq> [] \<and> ''241TP2070'' \<noteq> ''241TP2071''"
    by simp
  have ev: "map (\<lambda>r. (si_site r, si_sku r, si_url r))
     (sku_index (upsert_product ''t3'' ''t4''
        (upsert_product ''t1'' ''t2'' empty_db ''twinset.ru'' ''https://twinset.ru/catalog/a/1/''
           (Some ''241TP2070'') None None ''{}'')
        ''twinset.ru'' ''https://twinset.ru/catalog/a/1/'' (Some ''241TP2071'') None None ''{}''))
   = [(''twinset.ru'', ''241TP2070'', ''https://twinset.ru/catalog/a/1/''),
      (''twinset.ru'', ''241TP2071'', ''https://twinset.ru/catalog/a/1/'')]"
   "map (\<lambda>p. (p_site p, p_url p, p_sku p))
     (products (upsert_product ''t3'' ''t4''
        (upsert_product ''t1'' ''t2'' empty_db ''twinset.ru'' ''https://twinset.ru/catalog/a/1/''
           (Some ''241TP2070'') None None ''{}'')
        ''twinset.ru'' ''https://twinset.ru/catalog/a/1/'' (Some ''241TP2071'') None None ''{}''))
   = [(''twinset.ru'', ''https://twinset.ru/catalog/a/1/'', Some ''241TP2071'')]"
   "sku_index (upsert_product ''t5'' ''t6'' empty_db ''twinset.ru'' ''https://twinset.ru/catalog/a/1/''
                (Some '''') None None ''{}'') = []"
    by (simp_all add: upsert_product_def upsert_products_row_def upsert_sku_row_def empty_db_def Let_def)
  from upsert_product_sku_index[of "None" "''t1''" "''t2''" empty_db "''twinset.ru''"
      "''https://twinset.ru/catalog/a/1/''" None None "''{}''" "''241TP2070''" "''241TP2071''"
      "''t3''" "''t4''" None None "''{}''"] ne
  have "\<exists>r \<in> set (sku_index (upsert_product ''t3'' ''t4''
        (upsert_product ''t1'' ''t2'' empty_db ''twinset.ru'' ''https://twinset.ru/catalog/a/1/''
           (Some ''241TP2070'') None None ''{}'')
        ''twinset.ru'' ''https://twinset.ru/catalog/a/1/'' (Some ''241TP2071'') None None ''{}'')).
      si_site r = ''twinset.ru'' \<and> si_sku r = ''241TP2070'' \<and> si_url r = ''https://twinset.ru/catalog/a/1/''"
    unfolding Let_def by blast
  with ev show ?thesis by blast
qed

subsection \<open>Matching articles\<close>














subsection \<open>URL normalisation\<close>

text \<open>
  C2. Normalisation is meant to be idempotent, but the rule for twinset.com removes one
  trailing slash only: normalising \<open>https://www.twinset.com/row//\<close> gives
  \<open>https://www.twinset.com/row/\<close>, and normalising that again gives
  \<open>https://www.twinset.com/row\<close>, which is stable.
\<close>

theorem strip_query_and_fragment_not_idempotent:
  "strip_query_and_fragment ''https://www.twinset.com/row//'' = Inr ''https://www.twinset.com/row/'' \<and>
   strip_query_and_fragment ''https://www.twinset.com/row/'' = Inr ''https://www.twinset.com/row'' \<and>
   strip_query_and_fragment ''https://www.twinset.com/row'' = Inr ''https://www.twinset.com/row''"
  by code_simp

subsection \<open>The matcher against the language of a pattern\<close>

declare ms.simps(6) [simp del]

lemma ms_Star_set:
  "set (ms (Star a) s) =
     (\<Union>t' \<in> {t' \<in> set (ms a s). length t' < length s}. set (ms (Star a) t')) \<union> {s}"
  by (subst ms.simps(6)) auto

lemma star_lang_nonempty_split:
  "m \<in> star_lang L \<Longrightarrow> m = [] \<or> (\<exists>x y. m = x @ y \<and> x \<noteq> [] \<and> x \<in> L \<and> y \<in> star_lang L)"
proof (induction rule: star_lang.induct)
  case star_empty
  then show ?case by simp
next
  case (star_step x y)
  show ?case
  proof (cases "x = []")
    case True
    with star_step.IH show ?thesis by simp
  next
    case False
    with star_step.hyps show ?thesis by blast
  qed
qed

lemma ms_sound_complete: "t \<in> set (ms r s) \<longleftrightarrow> (\<exists>m. m \<in> lang r \<and> s = m @ t)"
proof (induction r s arbitrary: t rule: ms.induct)
  case (1 p)
  then show ?case by simp
next
  case (2 p c cs)
  show ?case
  proof
    assume "t \<in> set (ms (Sym p) (c # cs))"
    then have "p c" "t = cs" by (simp_all split: if_splits)
    then have "[c] \<in> lang (Sym p) \<and> c # cs = [c] @ t" by simp
    then show "\<exists>m. m \<in> lang (Sym p) \<and> c # cs = m @ t" by blast
  next
    assume "\<exists>m. m \<in> lang (Sym p) \<and> c # cs = m @ t"
    then obtain x where "p x" "c # cs = [x] @ t" by auto
    then show "t \<in> set (ms (Sym p) (c # cs))" by simp
  qed
next
  case (3 s)
  then show ?case by auto
next
  case (4 a b s)
  show ?case
  proof
    assume "t \<in> set (ms (Seq a b) s)"
    then obtain t' where t': "t' \<in> set (ms a s)" "t \<in> set (ms b t')" by auto
    from t'(1) obtain m1 where m1: "m1 \<in> lang a" "s = m1 @ t'" using 4(1) by blast
    from t'(2) obtain m2 where m2: "m2 \<in> lang b" "t' = m2 @ t" using 4(2)[OF t'(1)] by blast
    from m1 m2 have "m1 @ m2 \<in> lang (Seq a b) \<and> s = (m1 @ m2) @ t" by auto
    then show "\<exists>m. m \<in> lang (Seq a b) \<and> s = m @ t" by blast
  next
    assume "\<exists>m. m \<in> lang (Seq a b) \<and> s = m @ t"
    then obtain m1 m2 where m: "m1 \<in> lang a" "m2 \<in> lang b" "s = m1 @ (m2 @ t)" by auto
    then have a: "m2 @ t \<in> set (ms a s)" using 4(1) by blast
    have "t \<in> set (ms b (m2 @ t))" using 4(2)[OF a] m(2) by blast
    with a show "t \<in> set (ms (Seq a b) s)" by auto
  qed
next
  case (5 a b s)
  have "t \<in> set (ms (Alt a b) s) \<longleftrightarrow> t \<in> set (ms a s) \<or> t \<in> set (ms b s)" by simp
  also have "\<dots> \<longleftrightarrow> (\<exists>m. m \<in> lang a \<and> s = m @ t) \<or> (\<exists>m. m \<in> lang b \<and> s = m @ t)"
    using 5 by simp
  also have "\<dots> \<longleftrightarrow> (\<exists>m. m \<in> lang (Alt a b) \<and> s = m @ t)" by auto
  finally show ?case .
next
  case (6 a s)
  show ?case
  proof
    assume "t \<in> set (ms (Star a) s)"
    then have "t = s \<or> (\<exists>t'. t' \<in> set (ms a s) \<and> length t' < length s \<and> t \<in> set (ms (Star a) t'))"
      unfolding ms_Star_set[of a s] by blast
    then show "\<exists>m. m \<in> lang (Star a) \<and> s = m @ t"
    proof
      assume "t = s"
      then have "[] \<in> lang (Star a) \<and> s = [] @ t" by (simp add: star_empty)
      then show ?thesis by blast
    next
      assume "\<exists>t'. t' \<in> set (ms a s) \<and> length t' < length s \<and> t \<in> set (ms (Star a) t')"
      then obtain t' where t': "t' \<in> set (ms a s)" "length t' < length s" "t \<in> set (ms (Star a) t')"
        by blast
      from t'(1) obtain m1 where m1: "m1 \<in> lang a" "s = m1 @ t'" using 6(1) by blast
      from t'(3) obtain m2 where m2: "m2 \<in> lang (Star a)" "t' = m2 @ t"
        using 6(2)[OF t'(1) t'(2)] by blast
      from m1 m2 have "m1 @ m2 \<in> lang (Star a) \<and> s = (m1 @ m2) @ t"
        by (simp add: star_step)
      then show ?thesis by blast
    qed
  next
    assume "\<exists>m. m \<in> lang (Star a) \<and> s = m @ t"
    then obtain m where m: "m \<in> star_lang (lang a)" "s = m @ t" by auto
    from star_lang_nonempty_split[OF m(1)] show "t \<in> set (ms (Star a) s)"
    proof
      assume "m = []"
      with m show ?thesis unfolding ms_Star_set[of a s] by simp
    next
      assume "\<exists>x y. m = x @ y \<and> x \<noteq> [] \<and> x \<in> lang a \<and> y \<in> star_lang (lang a)"
      then obtain x y where xy: "m = x @ y" "x \<noteq> []" "x \<in> lang a" "y \<in> star_lang (lang a)" by blast
      have "s = x @ (y @ t)" using xy m by simp
      with xy(3) have a: "y @ t \<in> set (ms a s)" using 6(1) by blast
      have l: "length (y @ t) < length s" using xy m by simp
      have "y \<in> lang (Star a)" using xy(4) by simp
      then have "t \<in> set (ms (Star a) (y @ t))" using 6(2)[OF a l] by blast
      with a l have "\<exists>t' \<in> set (ms a s). length t' < length s \<and> t \<in> set (ms (Star a) t')" by blast
      then show ?thesis unfolding ms_Star_set[of a s] by blast
    qed
  qed
qed

lemma re_match_eol_lang:
  "re_match_eol r s \<longleftrightarrow> (\<exists>m t. s = m @ t \<and> m \<in> lang r \<and> at_end t)"
proof -
  have "re_match_eol r s \<longleftrightarrow> (\<exists>t. t \<in> set (ms r s) \<and> at_end t)"
    by (simp add: re_match_eol_def list_ex_iff Bex_def)
  also have "\<dots> \<longleftrightarrow> (\<exists>t. (\<exists>m. m \<in> lang r \<and> s = m @ t) \<and> at_end t)"
    by (simp only: ms_sound_complete)
  also have "\<dots> \<longleftrightarrow> (\<exists>m t. s = m @ t \<and> m \<in> lang r \<and> at_end t)"
    by blast
  finally show ?thesis .
qed

subsection \<open>The languages of the pieces of the patterns\<close>

lemma lang_times_Sym: "lang (times n (Sym p)) = {w. length w = n \<and> list_all p w}"
proof (induction n)
  case 0
  then show ?case by auto
next
  case (Suc n)
  show ?case
  proof (rule set_eqI, rule iffI)
    fix w assume "w \<in> lang (times (Suc n) (Sym p))"
    then obtain c y where "w = [c] @ y" "p c" "y \<in> lang (times n (Sym p))" by auto
    with Suc show "w \<in> {w. length w = Suc n \<and> list_all p w}" by simp
  next
    fix w assume "w \<in> {w. length w = Suc n \<and> list_all p w}"
    then obtain c y where w: "w = c # y" "length y = n" "p c" "list_all p y"
      by (cases w) auto
    then have "[c] \<in> lang (Sym p)" "y \<in> lang (times n (Sym p))" using Suc by auto
    then have "[c] @ y \<in> lang (times (Suc n) (Sym p))" unfolding times.simps lang.simps by blast
    with w show "w \<in> lang (times (Suc n) (Sym p))" by simp
  qed
qed

lemma lang_at_most_Sym: "lang (at_most n (Sym p)) = {w. length w \<le> n \<and> list_all p w}"
proof (induction n)
  case 0
  then show ?case by auto
next
  case (Suc n)
  show ?case
  proof (rule set_eqI, rule iffI)
    fix w assume "w \<in> lang (at_most (Suc n) (Sym p))"
    then have "w = [] \<or> (\<exists>c y. w = [c] @ y \<and> p c \<and> y \<in> lang (at_most n (Sym p)))" by auto
    then show "w \<in> {w. length w \<le> Suc n \<and> list_all p w}"
    proof
      assume "w = []"
      then show ?thesis by simp
    next
      assume "\<exists>c y. w = [c] @ y \<and> p c \<and> y \<in> lang (at_most n (Sym p))"
      then obtain c y where w: "w = [c] @ y" "p c" "y \<in> lang (at_most n (Sym p))" by blast
      from w(3) have "length y \<le> n \<and> list_all p y" unfolding Suc by simp
      with w(1,2) show ?thesis by simp
    qed
  next
    fix w assume a: "w \<in> {w. length w \<le> Suc n \<and> list_all p w}"
    show "w \<in> lang (at_most (Suc n) (Sym p))"
    proof (cases w)
      case Nil
      then show ?thesis by simp
    next
      case (Cons c y)
      with a have "p c" "length y \<le> n \<and> list_all p y" by auto
      then have "[c] \<in> lang (Sym p)" "y \<in> lang (at_most n (Sym p))" unfolding Suc by auto
      then have "[c] @ y \<in> lang (Seq (Sym p) (at_most n (Sym p)))" unfolding lang.simps by blast
      with Cons show ?thesis by simp
    qed
  qed
qed

lemma lang_Star_Sym: "lang (Star (Sym p)) = {w. list_all p w}"
proof (rule set_eqI, rule iffI)
  fix w assume "w \<in> lang (Star (Sym p))"
  then have "w \<in> star_lang {[c] | c. p c}" by simp
  then have "list_all p w" by (induction rule: star_lang.induct) auto
  then show "w \<in> {w. list_all p w}" by simp
next
  fix w assume "w \<in> {w. list_all p w}"
  then have "list_all p w" by simp
  then have "w \<in> star_lang {[c] | c. p c}"
  proof (induction w)
    case Nil
    then show ?case by (simp add: star_empty)
  next
    case (Cons c w)
    then have "[c] \<in> {[c] | c. p c}" "w \<in> star_lang {[c] | c. p c}" by auto
    then have "[c] @ w \<in> star_lang {[c] | c. p c}" by (rule star_step)
    then show ?case by simp
  qed
  then show "w \<in> lang (Star (Sym p))" by simp
qed

lemma lang_Seq_iff: "w \<in> lang (Seq a b) \<longleftrightarrow> (\<exists>x y. w = x @ y \<and> x \<in> lang a \<and> y \<in> lang b)"
  by auto

lemma lang_between_Sym:
  assumes "m \<le> n"
  shows "lang (between m n (Sym p)) = {w. m \<le> length w \<and> length w \<le> n \<and> list_all p w}"
proof (rule set_eqI, rule iffI)
  fix w assume "w \<in> lang (between m n (Sym p))"
  then obtain x y where "w = x @ y" "length x = m" "list_all p x" "length y \<le> n - m" "list_all p y"
    unfolding between_def lang_Seq_iff lang_times_Sym lang_at_most_Sym by blast
  with assms show "w \<in> {w. m \<le> length w \<and> length w \<le> n \<and> list_all p w}" by auto
next
  fix w assume a: "w \<in> {w. m \<le> length w \<and> length w \<le> n \<and> list_all p w}"
  then have "w = take m w @ drop m w" "length (take m w) = m" "length (drop m w) \<le> n - m" by auto
  moreover from a have "list_all p (take m w)" "list_all p (drop m w)"
    by (auto simp: list_all_iff dest: in_set_takeD in_set_dropD)
  ultimately show "w \<in> lang (between m n (Sym p))"
    unfolding between_def lang_Seq_iff lang_times_Sym lang_at_most_Sym by blast
qed

lemma lang_plus_Sym: "lang (plus (Sym p)) = {w. w \<noteq> [] \<and> list_all p w}"
proof (rule set_eqI, rule iffI)
  fix w assume "w \<in> lang (plus (Sym p))"
  then obtain c y where "w = [c] @ y" "p c" "list_all p y"
    unfolding plus_def lang_Seq_iff lang_Star_Sym by auto
  then show "w \<in> {w. w \<noteq> [] \<and> list_all p w}" by simp
next
  fix w assume "w \<in> {w. w \<noteq> [] \<and> list_all p w}"
  then obtain c y where w: "w = [c] @ y" "p c" "list_all p y" by (cases w) auto
  then have "[c] \<in> lang (Sym p)" "y \<in> lang (Star (Sym p))" unfolding lang_Star_Sym by auto
  with w(1) show "w \<in> lang (plus (Sym p))" unfolding plus_def lang_Seq_iff by blast
qed

lemma lang_str_ci: "w \<in> lang (str_ci s) \<longleftrightarrow> py_lower w = py_lower s"
proof (induction s arbitrary: w)
  case Nil
  then show ?case by (auto simp: py_lower_def)
next
  case (Cons c s)
  show ?case
  proof
    assume "w \<in> lang (str_ci (c # s))"
    then obtain x y where "w = [x] @ y" "lower_char x = lower_char c" "y \<in> lang (str_ci s)"
      by (auto simp: lit_def)
    with Cons show "py_lower w = py_lower (c # s)" by (simp add: py_lower_def)
  next
    assume a: "py_lower w = py_lower (c # s)"
    then obtain x y where w: "w = x # y" by (cases w) (auto simp: py_lower_def)
    with a have "lower_char x = lower_char c" "py_lower y = py_lower s" by (auto simp: py_lower_def)
    then have "[x] \<in> lang (lit c)" "y \<in> lang (str_ci s)" using Cons by (auto simp: lit_def)
    then have "[x] @ y \<in> lang (Seq (lit c) (str_ci s))" unfolding lang_Seq_iff by blast
    with w show "w \<in> lang (str_ci (c # s))" by simp
  qed
qed

lemma of_char_lower_char:
  "(of_char (lower_char x) :: nat) =
     (if (65 \<le> (of_char x :: nat) \<and> (of_char x :: nat) \<le> 90) \<or>
         (192 \<le> (of_char x :: nat) \<and> (of_char x :: nat) \<le> 222 \<and> (of_char x :: nat) \<noteq> 215)
      then of_char x + 32 else of_char x)"
proof -
  have "(of_char x :: nat) < 256" by simp
  then show ?thesis by (auto simp: lower_char_def Let_def)
qed

lemma lower_char_eq_fixed:
  assumes "lower_char x = c" and "(of_char c :: nat) < 97"
  shows "x = c"
proof -
  from assms(1) have "(of_char (lower_char x) :: nat) = of_char c" by simp
  with assms(2) have "(of_char x :: nat) = of_char c"
    unfolding of_char_lower_char by (auto split: if_splits)
  then show ?thesis by simp
qed

lemma lang_lit_hyphen: "lang (lit (CHR ''-'')) = {''-''}"
proof -
  have l: "lower_char (CHR ''-'') = CHR ''-''" by code_simp
  have "lower_char x = CHR ''-'' \<longleftrightarrow> x = CHR ''-''" for x
    using lower_char_eq_fixed[of x "CHR ''-''"] l by auto
  then show ?thesis by (auto simp: lit_def l)
qed

lemma lang_lit_underscore: "lang (lit (CHR ''_'')) = {''_''}"
proof -
  have l: "lower_char (CHR ''_'') = CHR ''_''" by code_simp
  have "lower_char x = CHR ''_'' \<longleftrightarrow> x = CHR ''_''" for x
    using lower_char_eq_fixed[of x "CHR ''_''"] l by auto
  then show ?thesis by (auto simp: lit_def l)
qed

subsection \<open>The SKU pattern\<close>

lemma lang_sku_group: "w \<in> lang sku_group_re \<longleftrightarrow> sku_token w"
proof
  assume "w \<in> lang sku_group_re"
  then obtain d r1 where 1: "w = d @ r1" "d \<in> lang (times 3 digit)"
      "r1 \<in> lang (Seq (between 2 5 letter) (Seq (times 2 alnum) (Star alnum)))"
    unfolding sku_group_re_def lang_Seq_iff[of w] by blast
  from 1(3) obtain l r2 where 2: "r1 = l @ r2" "l \<in> lang (between 2 5 letter)"
      "r2 \<in> lang (Seq (times 2 alnum) (Star alnum))"
    unfolding lang_Seq_iff[of r1] by blast
  from 2(3) obtain a1 a2 where 3: "r2 = a1 @ a2" "a1 \<in> lang (times 2 alnum)" "a2 \<in> lang (Star alnum)"
    unfolding lang_Seq_iff[of r2] by blast
  from 1(2) have d: "length d = 3 \<and> list_all is_digit d"
    unfolding digit_def lang_times_Sym by simp
  from 2(2) have l: "2 \<le> length l \<and> length l \<le> 5 \<and> list_all is_letter l"
    unfolding letter_def by (simp add: lang_between_Sym)
  from 3(2,3) have a: "length a1 = 2 \<and> list_all is_alnum a1 \<and> list_all is_alnum a2"
    unfolding alnum_def lang_times_Sym lang_Star_Sym by simp
  then have "2 \<le> length (a1 @ a2) \<and> list_all is_alnum (a1 @ a2)" by simp
  moreover have "w = d @ l @ (a1 @ a2)" using 1(1) 2(1) 3(1) by simp
  ultimately show "sku_token w" unfolding sku_token_def using d l by blast
next
  assume "sku_token w"
  then obtain d l a where w: "w = d @ l @ a" "length d = 3" "list_all is_digit d"
      "2 \<le> length l" "length l \<le> 5" "list_all is_letter l" "2 \<le> length a" "list_all is_alnum a"
    unfolding sku_token_def by blast
  have d: "d \<in> lang (times 3 digit)" using w(2,3) unfolding digit_def lang_times_Sym by simp
  have l: "l \<in> lang (between 2 5 letter)" using w(4,5,6) unfolding letter_def by (simp add: lang_between_Sym)
  have a1: "take 2 a \<in> lang (times 2 alnum)" using w(7,8)
    unfolding alnum_def lang_times_Sym by (auto simp: list_all_iff dest: in_set_takeD)
  have a2: "drop 2 a \<in> lang (Star alnum)" using w(8)
    unfolding alnum_def lang_Star_Sym by (auto simp: list_all_iff dest: in_set_dropD)
  from a1 a2 have "take 2 a @ drop 2 a \<in> lang (Seq (times 2 alnum) (Star alnum))"
    unfolding lang_Seq_iff by blast
  then have a: "a \<in> lang (Seq (times 2 alnum) (Star alnum))" by simp
  from l a have "l @ a \<in> lang (Seq (between 2 5 letter) (Seq (times 2 alnum) (Star alnum)))"
    unfolding lang_Seq_iff[of "l @ a"] by blast
  with d have "d @ (l @ a) \<in> lang sku_group_re"
    unfolding sku_group_re_def lang_Seq_iff[of "d @ (l @ a)"] by blast
  with w(1) show "w \<in> lang sku_group_re" by simp
qed

lemma lang_sku_opt: "x \<in> lang (opt (Seq (lit (CHR ''_'')) (plus alnum))) \<longleftrightarrow> sku_suffix x"
proof -
  have "x \<in> lang (Seq (lit (CHR ''_'')) (plus alnum)) \<longleftrightarrow>
        (\<exists>y. x = CHR ''_'' # y \<and> y \<noteq> [] \<and> list_all is_alnum y)"
    unfolding lang_Seq_iff lang_lit_underscore alnum_def lang_plus_Sym by auto
  then show ?thesis unfolding opt_def sku_suffix_def by auto
qed

lemma lang_sku_tail:
  "w \<in> lang sku_tail_re \<longleftrightarrow> (\<exists>suf ext. w = suf @ ext \<and> sku_suffix suf \<and> py_lower ext = ''.html'')"
proof -
  have l: "py_lower ''.html'' = ''.html''" by code_simp
  show ?thesis
    unfolding sku_tail_re_def lang_Seq_iff[of w] lang_sku_opt lang_str_ci l by blast
qed

lemma group_here_Some:
  assumes "group_here p g t s = Some x"
  shows "\<exists>a c nl. s = a @ x @ c @ nl \<and> a \<in> lang p \<and> x \<in> lang g \<and> c \<in> lang t \<and> at_end nl"
proof -
  let ?L = "concat (map (\<lambda>r. map (\<lambda>r'. take (length r - length r') r)
                               (filter (\<lambda>r'. re_match_eol t r') (ms g r))) (ms p s))"
  from assms obtain ys where "?L = x # ys" unfolding group_here_def by (auto split: list.splits)
  then have "x \<in> set ?L" by (metis list.set_intros(1))
  then obtain r r' where r: "r \<in> set (ms p s)" "r' \<in> set (ms g r)" "re_match_eol t r'"
      "x = take (length r - length r') r" by auto
  from r(1) obtain a where a: "a \<in> lang p" "s = a @ r" unfolding ms_sound_complete by blast
  from r(2) obtain b where b: "b \<in> lang g" "r = b @ r'" unfolding ms_sound_complete by blast
  from r(3) obtain c nl where c: "r' = c @ nl" "c \<in> lang t" "at_end nl"
    unfolding re_match_eol_lang by blast
  from r(4) b(2) have "x = b" by simp
  with a b c show ?thesis by auto
qed

lemma group_here_None:
  assumes "group_here p g t s = None"
  shows "\<not> (\<exists>a b c nl. s = a @ b @ c @ nl \<and> a \<in> lang p \<and> b \<in> lang g \<and> c \<in> lang t \<and> at_end nl)"
proof
  assume "\<exists>a b c nl. s = a @ b @ c @ nl \<and> a \<in> lang p \<and> b \<in> lang g \<and> c \<in> lang t \<and> at_end nl"
  then obtain a b c nl where m: "s = a @ b @ c @ nl" "a \<in> lang p" "b \<in> lang g" "c \<in> lang t" "at_end nl"
    by blast
  have 1: "b @ c @ nl \<in> set (ms p s)" unfolding ms_sound_complete using m by blast
  have 2: "c @ nl \<in> set (ms g (b @ c @ nl))" unfolding ms_sound_complete using m by blast
  have 3: "re_match_eol t (c @ nl)" unfolding re_match_eol_lang using m by blast
  let ?L = "concat (map (\<lambda>r. map (\<lambda>r'. take (length r - length r') r)
                               (filter (\<lambda>r'. re_match_eol t r') (ms g r))) (ms p s))"
  from 2 3 have "c @ nl \<in> set (filter (\<lambda>r'. re_match_eol t r') (ms g (b @ c @ nl)))" by simp
  then have "map (\<lambda>r'. take (length (b @ c @ nl) - length r') (b @ c @ nl))
                 (filter (\<lambda>r'. re_match_eol t r') (ms g (b @ c @ nl))) \<noteq> []"
    by (metis empty_iff list.map_disc_iff list.set(1))
  with 1 have "\<exists>r \<in> set (ms p s). map (\<lambda>r'. take (length r - length r') r)
                 (filter (\<lambda>r'. re_match_eol t r') (ms g r)) \<noteq> []" by blast
  then have "?L \<noteq> []" unfolding concat_eq_Nil_conv by (simp del: map_is_Nil_conv)
  with assms show False unfolding group_here_def by (auto split: list.splits)
qed

lemma re_search_group_Some:
  "re_search_group p g t s = Some x \<Longrightarrow>
   \<exists>pre a c nl. s = pre @ a @ x @ c @ nl \<and> a \<in> lang p \<and> x \<in> lang g \<and> c \<in> lang t \<and> at_end nl"
proof (induction s)
  case Nil
  then have "group_here p g t [] = Some x" by simp
  from group_here_Some[OF this] obtain a c nl where
    "[] = [] @ a @ x @ c @ nl \<and> a \<in> lang p \<and> x \<in> lang g \<and> c \<in> lang t \<and> at_end nl" by auto
  then show ?case by blast
next
  case (Cons ch s)
  show ?case
  proof (cases "group_here p g t (ch # s)")
    case None
    with Cons.prems have "re_search_group p g t s = Some x" by simp
    from Cons.IH[OF this] obtain pre a c nl where
      "s = pre @ a @ x @ c @ nl \<and> a \<in> lang p \<and> x \<in> lang g \<and> c \<in> lang t \<and> at_end nl" by blast
    then have "ch # s = (ch # pre) @ a @ x @ c @ nl \<and> a \<in> lang p \<and> x \<in> lang g \<and> c \<in> lang t \<and> at_end nl"
      by simp
    then show ?thesis by blast
  next
    case (Some y)
    with Cons.prems have "y = x" by simp
    with Some group_here_Some[of p g t "ch # s" x] obtain a c nl where
      "ch # s = [] @ a @ x @ c @ nl \<and> a \<in> lang p \<and> x \<in> lang g \<and> c \<in> lang t \<and> at_end nl" by auto
    then show ?thesis by blast
  qed
qed

lemma re_search_group_None:
  "re_search_group p g t s = None \<Longrightarrow>
   \<not> (\<exists>pre a b c nl. s = pre @ a @ b @ c @ nl \<and> a \<in> lang p \<and> b \<in> lang g \<and> c \<in> lang t \<and> at_end nl)"
proof (induction s)
  case Nil
  from group_here_None[of p g t "[]"] Nil show ?case by simp
next
  case (Cons ch s)
  from Cons.prems have h: "group_here p g t (ch # s) = None" and r: "re_search_group p g t s = None"
    by (auto split: option.splits)
  show ?case
  proof
    assume "\<exists>pre a b c nl. ch # s = pre @ a @ b @ c @ nl \<and> a \<in> lang p \<and> b \<in> lang g \<and> c \<in> lang t \<and> at_end nl"
    then obtain pre a b c nl where m: "ch # s = pre @ a @ b @ c @ nl" "a \<in> lang p" "b \<in> lang g"
        "c \<in> lang t" "at_end nl" by blast
    show False
    proof (cases pre)
      case Nil
      with m group_here_None[OF h] show False by auto
    next
      case (Cons ch' pre')
      with m have "s = pre' @ a @ b @ c @ nl" by simp
      with m Cons.IH[OF r] show False by blast
    qed
  qed
qed

lemma sku_token_nonempty: "sku_token w \<Longrightarrow> w \<noteq> []"
  unfolding sku_token_def by auto

lemma truthy_extract_sku:
  "truthy (extract_twinset_com_sku_from_url u) \<longleftrightarrow> sku_derivable u"
proof (cases "re_search_group (lit (CHR ''-'')) sku_group_re sku_tail_re u")
  case None
  from re_search_group_None[OF None] have "\<not> sku_derivable u"
    unfolding sku_derivable_def lang_lit_hyphen lang_sku_group lang_sku_tail
    by (metis append.assoc singletonI)
  with None show ?thesis by (simp add: extract_twinset_com_sku_from_url_def)
next
  case (Some x)
  from re_search_group_Some[OF Some] obtain pre a c nl where
    m: "u = pre @ a @ x @ c @ nl" "a \<in> lang (lit (CHR ''-''))" "x \<in> lang sku_group_re"
       "c \<in> lang sku_tail_re" "at_end nl" by blast
  from m(2) have a: "a = ''-''" unfolding lang_lit_hyphen by simp
  from m(3) have x: "sku_token x" unfolding lang_sku_group .
  from m(4) obtain suf ext where c: "c = suf @ ext" "sku_suffix suf" "py_lower ext = ''.html''"
    unfolding lang_sku_tail by blast
  have "u = pre @ ''-'' @ x @ suf @ ext @ nl" using m(1) a c(1) by simp
  with x c m(5) have "sku_derivable u" unfolding sku_derivable_def by blast
  moreover have "py_upper x \<noteq> []" using sku_token_nonempty[OF x] by (simp add: py_upper_def)
  ultimately show ?thesis using Some by (simp add: extract_twinset_com_sku_from_url_def)
qed

lemma slash_not_alnum: "\<not> is_digit (CHR ''/'')" "\<not> is_letter (CHR ''/'')" "\<not> is_alnum (CHR ''/'')"
  by code_simp+

lemma list_all_not_mem: "list_all P w \<Longrightarrow> \<not> P c \<Longrightarrow> c \<notin> set w"
  by (auto simp: list_all_iff)

lemma alnum_not_slash: "list_all is_alnum w \<Longrightarrow> CHR ''/'' \<notin> set w"
  using list_all_not_mem[of is_alnum w "CHR ''/''"] slash_not_alnum(3) by blast

lemma sku_token_no_slash:
  assumes "sku_token w"
  shows "CHR ''/'' \<notin> set w"
proof -
  from assms obtain d l a where w: "w = d @ l @ a" "list_all is_digit d" "list_all is_letter l"
      "list_all is_alnum a" unfolding sku_token_def by blast
  from list_all_not_mem[OF w(2) slash_not_alnum(1)] list_all_not_mem[OF w(3) slash_not_alnum(2)]
    list_all_not_mem[OF w(4) slash_not_alnum(3)] w(1)
  show ?thesis by simp
qed

lemma sku_suffix_no_slash:
  assumes "sku_suffix w"
  shows "CHR ''/'' \<notin> set w"
proof -
  from assms have "w = [] \<or> (\<exists>x. w = CHR ''_'' # x \<and> list_all is_alnum x)"
    unfolding sku_suffix_def by blast
  then show ?thesis using alnum_not_slash by auto
qed

lemma html_ext_no_slash:
  assumes "py_lower ext = ''.html''"
  shows "CHR ''/'' \<notin> set ext"
proof
  assume "CHR ''/'' \<in> set ext"
  then have "lower_char (CHR ''/'') \<in> set (py_lower ext)" by (simp add: py_lower_def)
  moreover have "lower_char (CHR ''/'') = CHR ''/''" by code_simp
  ultimately show False using assms by simp
qed

lemma at_end_no_slash: "at_end nl \<Longrightarrow> CHR ''/'' \<notin> set nl"
  by (auto simp: at_end_def)

lemma final_segment_append:
  assumes "CHR ''/'' \<notin> set tail"
  shows "final_segment (pre @ tail) = final_segment pre @ tail"
proof -
  have "\<And>x. x \<in> set (rev tail) \<Longrightarrow> x \<noteq> CHR ''/''" using assms by auto
  from takeWhile_append2[of "rev tail" "\<lambda>c. c \<noteq> CHR ''/''" "rev pre", OF this]
  show ?thesis by (simp add: final_segment_def)
qed

lemma final_segment_suffix: "\<exists>x. u = x @ final_segment u"
proof -
  have "u = rev (dropWhile (\<lambda>c. c \<noteq> CHR ''/'') (rev u)) @ final_segment u"
    unfolding final_segment_def by (metis rev_append rev_rev_ident takeWhile_dropWhile_id)
  then show ?thesis by blast
qed

lemma sku_derivable_final_segment: "sku_derivable u \<longleftrightarrow> sku_derivable (final_segment u)"
proof
  assume "sku_derivable u"
  then obtain pre tok suf ext nl where m: "u = pre @ ''-'' @ tok @ suf @ ext @ nl" "sku_token tok"
      "sku_suffix suf" "py_lower ext = ''.html''" "at_end nl"
    unfolding sku_derivable_def by blast
  have "CHR ''/'' \<notin> set (''-'' @ tok @ suf @ ext @ nl)"
    using sku_token_no_slash[OF m(2)] sku_suffix_no_slash[OF m(3)] html_ext_no_slash[OF m(4)]
      at_end_no_slash[OF m(5)] by simp
  from final_segment_append[OF this, of pre] m(1)
  have "final_segment u = final_segment pre @ ''-'' @ tok @ suf @ ext @ nl" by simp
  with m show "sku_derivable (final_segment u)" unfolding sku_derivable_def by blast
next
  assume "sku_derivable (final_segment u)"
  then obtain pre tok suf ext nl where m: "final_segment u = pre @ ''-'' @ tok @ suf @ ext @ nl"
      "sku_token tok" "sku_suffix suf" "py_lower ext = ''.html''" "at_end nl"
    unfolding sku_derivable_def by blast
  from final_segment_suffix[of u] obtain x where "u = x @ final_segment u" by blast
  with m(1) have "u = (x @ pre) @ ''-'' @ tok @ suf @ ext @ nl" by simp
  with m show "sku_derivable u" unfolding sku_derivable_def by blast
qed

subsection \<open>Classification\<close>

text \<open>
  C7. Classification works on the normalised URL, in this order: for twinset.ru a match of
  the stale-path pattern gives \<open>other\<close>; otherwise a match of the product pattern gives
  \<open>product\<close>, except that for twinset.com it gives \<open>product\<close> only if a SKU is derivable
  (after a hyphen, a token of three digits, two to five letters and at least two
  alphanumerics, then possibly an underscore part, then \<open>.html\<close> at the end; all of it
  inside the final path segment) and \<open>category\<close> if not; otherwise a match of the category
  pattern gives \<open>category\<close>; otherwise \<open>other\<close>. The result depends on the URL only
  through its normalised form, so URLs with the same normalised form are classified alike.
\<close>

theorem classify_url_sequential:
  "classify_url cfg url =
     (case strip_query_and_fragment url of
        Inl e \<Rightarrow> Inl e
      | Inr clean \<Rightarrow> Inr
         (if key cfg = ''twinset.ru'' \<and> re_match_eol stale_path_re clean then ''other''
          else if re_match_eol (product_url_re cfg) clean
               then (if key cfg = ''twinset.com''
                     then (if sku_derivable clean then ''product'' else ''category'')
                     else ''product'')
          else if re_match_eol (category_url_re cfg) clean then ''category''
          else ''other'')) \<and>
   (sku_derivable u \<longleftrightarrow> sku_derivable (final_segment u)) \<and>
   (strip_query_and_fragment url = strip_query_and_fragment url' \<longrightarrow>
      classify_url cfg url = classify_url cfg url')"
proof -
  have 1: "classify_url cfg url =
     (case strip_query_and_fragment url of
        Inl e \<Rightarrow> Inl e
      | Inr clean \<Rightarrow> Inr
         (if key cfg = ''twinset.ru'' \<and> re_match_eol stale_path_re clean then ''other''
          else if re_match_eol (product_url_re cfg) clean
               then (if key cfg = ''twinset.com''
                     then (if sku_derivable clean then ''product'' else ''category'')
                     else ''product'')
          else if re_match_eol (category_url_re cfg) clean then ''category''
          else ''other''))"
    by (simp add: classify_url_def classify_clean_def truthy_extract_sku split: sum.splits)
  have 3: "strip_query_and_fragment url = strip_query_and_fragment url' \<longrightarrow>
      classify_url cfg url = classify_url cfg url'"
    by (simp add: classify_url_def)
  from 1 sku_derivable_final_segment[of u] 3 show ?thesis by blast
qed

theorem classify_url_sequential_witness:
  "strip_query_and_fragment ''https://www.twinset.com/row/dress-241TP2070_00001.html?x=1'' =
     strip_query_and_fragment ''https://www.twinset.com/row/dress-241TP2070_00001.html#top'' \<and>
   classify_url twinset_com ''https://www.twinset.com/row/dress-241TP2070_00001.html?x=1'' =
     classify_url twinset_com ''https://www.twinset.com/row/dress-241TP2070_00001.html#top'' \<and>
   classify_url twinset_com ''https://www.twinset.com/row/dress-241TP2070_00001.html?x=1'' = Inr ''product'' \<and>
   sku_derivable ''https://www.twinset.com/row/dress-241TP2070_00001.html'' \<and>
   classify_url twinset_com ''https://www.twinset.com/row/new-arrivals.html'' = Inr ''category'' \<and>
   \<not> sku_derivable ''https://www.twinset.com/row/new-arrivals.html'' \<and>
   classify_url twinset_ru ''https://twinset.ru/catalog/12345/'' = Inr ''other''"
proof -
  let ?a = "''https://www.twinset.com/row/dress-241TP2070_00001.html?x=1''"
  let ?b = "''https://www.twinset.com/row/dress-241TP2070_00001.html#top''"
  let ?c = "''https://www.twinset.com/row/dress-241TP2070_00001.html''"
  let ?n = "''https://www.twinset.com/row/new-arrivals.html''"
  have sa: "strip_query_and_fragment ?a = Inr ?c" by code_simp
  have sb: "strip_query_and_fragment ?b = Inr ?c" by code_simp
  have sn: "strip_query_and_fragment ?n = Inr ?n" by code_simp
  have ca: "classify_url twinset_com ?a = Inr ''product''" by code_simp
  have cn: "classify_url twinset_com ?n = Inr ''category''" by code_simp
  have cr: "classify_url twinset_ru ''https://twinset.ru/catalog/12345/'' = Inr ''other''" by code_simp
  have k: "key twinset_com = ''twinset.com''" by (simp add: twinset_com_def)
  have pa: "re_match_eol (product_url_re twinset_com) ?c" by code_simp
  have pn: "re_match_eol (product_url_re twinset_com) ?n" by code_simp
  have ss: "strip_query_and_fragment ?a = strip_query_and_fragment ?b"
    by (simp only: sa sb)
  from classify_url_sequential[of twinset_com ?a ?c ?b, THEN conjunct2, THEN conjunct2] ss
  have eq: "classify_url twinset_com ?a = classify_url twinset_com ?b" by blast
  have ru: "key twinset_com \<noteq> ''twinset.ru''" by (simp add: twinset_com_def)
  from classify_url_sequential[of twinset_com ?a ?c ?b, THEN conjunct1] ca sa
  have "Inr ''product'' = (Inr (if key twinset_com = ''twinset.ru'' \<and> re_match_eol stale_path_re ?c then ''other''
          else if re_match_eol (product_url_re twinset_com) ?c
               then (if key twinset_com = ''twinset.com''
                     then (if sku_derivable ?c then ''product'' else ''category'')
                     else ''product'')
          else if re_match_eol (category_url_re twinset_com) ?c then ''category''
          else ''other'') :: url_error + string)" by simp
  with k pa ru have da: "sku_derivable ?c" by (simp split: if_splits)
  from classify_url_sequential[of twinset_com ?n ?c ?b, THEN conjunct1] cn sn
  have "Inr ''category'' = (Inr (if key twinset_com = ''twinset.ru'' \<and> re_match_eol stale_path_re ?n then ''other''
          else if re_match_eol (product_url_re twinset_com) ?n
               then (if key twinset_com = ''twinset.com''
                     then (if sku_derivable ?n then ''product'' else ''category'')
                     else ''product'')
          else if re_match_eol (category_url_re twinset_com) ?n then ''category''
          else ''other'') :: url_error + string)" by simp
  with k pn ru have dn: "\<not> sku_derivable ?n" by (simp split: if_splits)
  from ss eq ca da cn dn cr show ?thesis by blast
qed

subsection \<open>HTTP errors: the client and the crawl loop\<close>

lemma get_bytes_loop_HTTPError:
  "get_bytes_loop url r opener [k..r] le = (Inl (HTTPError code reason), sleeps) \<Longrightarrow>
   k \<le> r \<and> opener r = Raises_HTTPError code reason \<and> sleeps = [k..r - 1]"
proof (induction "nat (r + 1 - k)" arbitrary: k le sleeps)
  case 0
  then have "[k..r] = []" by simp
  with 0(2) show ?case by simp
next
  case (Suc n)
  then have kr: "k \<le> r" by linarith
  then have up: "[k..r] = k # [k + 1..r]" by (rule upto_rec1)
  have n: "n = nat (r + 1 - (k + 1))" using Suc(2) by linarith
  note run = Suc(3)[unfolded up]
  show ?case
  proof (cases "opener k")
    case (Response raw hdrs)
    with run show ?thesis by simp
  next
    case (Raises_HTTPError c m)
    show ?thesis
    proof (cases "k \<ge> r")
      case True
      with kr have "k = r" by simp
      with run Raises_HTTPError show ?thesis by simp
    next
      case False
      obtain res sl where rec: "get_bytes_loop url r opener [k + 1..r] (Some (str_exc (HTTPError c m))) = (res, sl)"
        by (cases "get_bytes_loop url r opener [k + 1..r] (Some (str_exc (HTTPError c m)))") auto
      with run Raises_HTTPError False have "res = Inl (HTTPError code reason)" "sleeps = k # sl"
        by simp_all
      with Suc(1)[OF n, of "Some (str_exc (HTTPError c m))" sl] rec
      have ih: "k + 1 \<le> r \<and> opener r = Raises_HTTPError code reason \<and> sl = [k + 1..r - 1]" by simp
      then have "[k..r - 1] = k # [k + 1..r - 1]" by (intro upto_rec1) simp
      with ih \<open>sleeps = k # sl\<close> kr show ?thesis by simp
    qed
  next
    case (Raises_network m)
    show ?thesis
    proof (cases "k \<ge> r")
      case True
      with run Raises_network show ?thesis by simp
    next
      case False
      obtain res sl where rec: "get_bytes_loop url r opener [k + 1..r] (Some m) = (res, sl)"
        by (cases "get_bytes_loop url r opener [k + 1..r] (Some m)") auto
      with run Raises_network False have "res = Inl (HTTPError code reason)" "sleeps = k # sl"
        by simp_all
      with Suc(1)[OF n, of "Some m" sl] rec
      have ih: "k + 1 \<le> r \<and> opener r = Raises_HTTPError code reason \<and> sl = [k + 1..r - 1]" by simp
      then have "[k..r - 1] = k # [k + 1..r - 1]" by (intro upto_rec1) simp
      with ih \<open>sleeps = k # sl\<close> kr show ?thesis by simp
    qed
  next
    case (Raises_other m)
    with run show ?thesis by simp
  qed
qed

lemma set_url_status_rows:
  "length (url_queue (set_url_status now db site url status http blocked err)) = length (url_queue db) \<and>
   (\<forall>i < length (url_queue db).
      let r = url_queue db ! i;
          r' = url_queue (set_url_status now db site url status http blocked err) ! i
      in if q_site r = site \<and> q_url r = url
         then q_status r' = status \<and> q_attempts r' = q_attempts r + 1 \<and>
              q_last_http_status r' = (case http of Some c \<Rightarrow> Some c | None \<Rightarrow> q_last_http_status r) \<and>
              q_blocked r' = (if blocked then 1 else 0) \<and> q_last_error r' = err \<and>
              q_updated_at r' = now \<and> q_site r' = q_site r \<and> q_url r' = q_url r \<and>
              q_url_type r' = q_url_type r \<and> q_depth r' = q_depth r \<and>
              q_discovered_from r' = q_discovered_from r
         else r' = r)"
  by (auto simp: set_url_status_def Let_def)

text \<open>
  C1, amended. When the fetch of the dequeued URL raises \<open>HTTPError\<close> with code 404 or
  410, the iteration gives every url\_queue row of that (site, url) the status \<open>gone\<close>,
  the code as last\_http\_status, blocked 0, the text \<open>HTTP <code>\<close> and one more attempt,
  and leaves all other rows as they are. The client raises an \<open>HTTPError\<close> to its caller
  only as the response of the last attempt (attempt \<open>retries\<close>); by then it has slept
  \<open>1.2 * k\<close> seconds after each earlier attempt \<open>k = 1, ..., retries - 1\<close>.
\<close>

theorem gone_on_404_and_retries:
  "(code = 404 \<or> code = 410 \<longrightarrow>
      (let db' = fst (crawl_page site_cfg env max_depth discover_links row
                        (Inl (HTTPError code reason)) (db, t))
       in length (url_queue db') = length (url_queue db) \<and>
          (\<forall>i < length (url_queue db).
             let r = url_queue db ! i; r' = url_queue db' ! i
             in if q_site r = key site_cfg \<and> q_url r = q_url row
                then q_status r' = ''gone'' \<and> q_last_http_status r' = Some code \<and>
                     q_blocked r' = 0 \<and> q_last_error r' = Some (''HTTP '' @ py_str_int code) \<and>
                     q_attempts r' = q_attempts r + 1
                else r' = r))) \<and>
   (get_bytes retries opener url = (Inl (HTTPError code' reason'), sleeps) \<longrightarrow>
      1 \<le> retries \<and> opener retries = Raises_HTTPError code' reason' \<and> sleeps = [1..retries - 1])"
proof -
  have a: "code = 404 \<or> code = 410 \<longrightarrow>
      (let db' = fst (crawl_page site_cfg env max_depth discover_links row
                        (Inl (HTTPError code reason)) (db, t))
       in length (url_queue db') = length (url_queue db) \<and>
          (\<forall>i < length (url_queue db).
             let r = url_queue db ! i; r' = url_queue db' ! i
             in if q_site r = key site_cfg \<and> q_url r = q_url row
                then q_status r' = ''gone'' \<and> q_last_http_status r' = Some code \<and>
                     q_blocked r' = 0 \<and> q_last_error r' = Some (''HTTP '' @ py_str_int code) \<and>
                     q_attempts r' = q_attempts r + 1
                else r' = r))"
  proof
    assume c: "code = 404 \<or> code = 410"
    then have e: "fst (crawl_page site_cfg env max_depth discover_links row
                        (Inl (HTTPError code reason)) (db, t)) =
        set_url_status (now_iso env t) db (key site_cfg) (q_url row) ''gone'' (Some code) False
          (Some (''HTTP '' @ py_str_int code))"
      by (auto simp: crawl_page_def Let_def)
    show "let db' = fst (crawl_page site_cfg env max_depth discover_links row
                        (Inl (HTTPError code reason)) (db, t))
       in length (url_queue db') = length (url_queue db) \<and>
          (\<forall>i < length (url_queue db).
             let r = url_queue db ! i; r' = url_queue db' ! i
             in if q_site r = key site_cfg \<and> q_url r = q_url row
                then q_status r' = ''gone'' \<and> q_last_http_status r' = Some code \<and>
                     q_blocked r' = 0 \<and> q_last_error r' = Some (''HTTP '' @ py_str_int code) \<and>
                     q_attempts r' = q_attempts r + 1
                else r' = r)"
      unfolding e Let_def
      using set_url_status_rows[of "now_iso env t" db "key site_cfg" "q_url row" "''gone''"
          "Some code" False "Some (''HTTP '' @ py_str_int code)"]
      by (simp add: Let_def)
  qed
  have b: "get_bytes retries opener url = (Inl (HTTPError code' reason'), sleeps) \<longrightarrow>
      1 \<le> retries \<and> opener retries = Raises_HTTPError code' reason' \<and> sleeps = [1..retries - 1]"
    unfolding get_bytes_def using get_bytes_loop_HTTPError[of url retries opener 1 None code' reason' sleeps]
    by blast
  from a b show ?thesis by blast
qed

theorem gone_on_404_and_retries_witness:
  "get_bytes 3 always_404 ''https://twinset.ru/catalog/a/2/'' =
     (Inl (HTTPError 404 ''Not Found''), [1, 2]) \<and>
   (1::int) \<le> 3 \<and> always_404 3 = Raises_HTTPError 404 ''Not Found'' \<and> [1, 2] = [1..3 - 1] \<and>
   (2::nat) < length (url_queue example_queue) \<and>
   q_site (url_queue example_queue ! 2) = key twinset_ru \<and>
   q_status (url_queue (fst (crawl_page twinset_ru example_env 2 True (url_queue example_queue ! 2)
      (Inl (HTTPError 404 ''Not Found'')) (example_queue, 0))) ! 2) = ''gone'' \<and>
   q_last_http_status (url_queue (fst (crawl_page twinset_ru example_env 2 True (url_queue example_queue ! 2)
      (Inl (HTTPError 404 ''Not Found'')) (example_queue, 0))) ! 2) = Some 404 \<and>
   q_last_error (url_queue (fst (crawl_page twinset_ru example_env 2 True (url_queue example_queue ! 2)
      (Inl (HTTPError 404 ''Not Found'')) (example_queue, 0))) ! 2) = Some ''HTTP 404''"
proof -
  let ?row = "url_queue example_queue ! 2"
  let ?db' = "fst (crawl_page twinset_ru example_env 2 True ?row
      (Inl (HTTPError 404 ''Not Found'')) (example_queue, 0))"
  have g: "get_bytes 3 always_404 ''https://twinset.ru/catalog/a/2/'' =
     (Inl (HTTPError 404 ''Not Found''), [1, 2])" by code_simp
  note inst = gone_on_404_and_retries[of 404 twinset_ru example_env 2 True ?row "''Not Found''"
      example_queue 0 3 always_404 "''https://twinset.ru/catalog/a/2/''" 404 "''Not Found''" "[1, 2]"]
  from inst g have c: "(1::int) \<le> 3 \<and> always_404 3 = Raises_HTTPError 404 ''Not Found'' \<and> [1, 2] = [1..3 - 1]"
    by blast
  have i: "(2::nat) < length (url_queue example_queue)"
    "q_site ?row = key twinset_ru" "q_url ?row = q_url ?row"
    by (simp_all add: example_queue_def empty_db_def twinset_ru_def)
  from inst have "\<forall>i < length (url_queue example_queue).
             let r = url_queue example_queue ! i; r' = url_queue ?db' ! i
             in if q_site r = key twinset_ru \<and> q_url r = q_url ?row
                then q_status r' = ''gone'' \<and> q_last_http_status r' = Some 404 \<and>
                     q_blocked r' = 0 \<and> q_last_error r' = Some (''HTTP '' @ py_str_int 404) \<and>
                     q_attempts r' = q_attempts r + 1
                else r' = r"
    unfolding Let_def by blast
  from this[rule_format, OF i(1)] i(2)
  have "q_status (url_queue ?db' ! 2) = ''gone'' \<and> q_last_http_status (url_queue ?db' ! 2) = Some 404 \<and>
        q_last_error (url_queue ?db' ! 2) = Some (''HTTP '' @ py_str_int 404)"
    unfolding Let_def by simp
  moreover have "''HTTP '' @ py_str_int 404 = ''HTTP 404''" by code_simp
  ultimately show ?thesis using g c i(1,2) by simp
qed

text \<open>
  C1 as stated fails: with the default of three retries a URL answered 404 every time is
  raised to the crawl loop only after the backoff sleeps of the first and second attempt.
\<close>

theorem http_error_is_retried_with_backoff:
  "get_bytes 3 always_404 ''https://twinset.ru/catalog/a/1/'' =
     (Inl (HTTPError 404 ''Not Found''), [1, 2])"
  by code_simp

subsection \<open>Sitemap resolution\<close>












end
